theory Spec2Isabelle
  imports Main
begin

section \<open>The order attribute editor: model\<close>

text \<open>
  A shallow embedding of the component \<^verbatim>\<open>OrderAttribute\<close>
  (\<^verbatim>\<open>src/app/admin/orders/[page]/attribute_group.tsx\<close>): the document of attribute
  groups it edits, its handlers, its two effects, the dirty flag and the save.

  The component keeps its document in React state and compares and copies it through
  \<^verbatim>\<open>JSON.stringify\<close> and \<^verbatim>\<open>JSON.parse\<close>. The first part of the theory therefore
  models the values of JavaScript that JSON can carry and the two built-in functions
  on text; the second part models the component on top of them.
\<close>

subsection \<open>Values\<close>

text \<open>
  The values that \<^verbatim>\<open>JSON.parse\<close> produces. An object is the list of its properties
  in the order of their creation, which is the order \<^verbatim>\<open>JSON.stringify\<close> prints them in.
  Numbers are integers (the identifiers of the attribute store are database integers);
  fractions and exponents are outside the model. A string is a list of 8-bit characters.
\<close>

datatype jsval =
    JNull
  | JBool bool
  | JNum int
  | JStr string
  | JArr "jsval list"
  | JObj "(string \<times> jsval) list"

subsection \<open>\<^verbatim>\<open>JSON.stringify\<close>\<close>

text \<open>
  The text of a value without indentation, as \<^verbatim>\<open>JSON.stringify(value)\<close> gives it:
  a string is quoted, with the quote, the backslash and the control characters escaped
  (\<^verbatim>\<open>\b \t \n \f \r\<close>, and \<^verbatim>\<open>\u00XX\<close> in lower-case hexadecimal for the others).
\<close>

definition dq :: char where "dq = CHR 0x22"
definition bsl :: char where "bsl = CHR 0x5C"

definition hex_digit :: "nat \<Rightarrow> char" where
  "hex_digit d = (if d < 10 then char_of (48 + d) else char_of (87 + d))"

definition quote_char :: "char \<Rightarrow> string" where
  "quote_char c =
     (if c = dq then [bsl, dq]
      else if c = bsl then [bsl, bsl]
      else if c = CHR 0x08 then [bsl, CHR ''b'']
      else if c = CHR 0x09 then [bsl, CHR ''t'']
      else if c = CHR 0x0A then [bsl, CHR ''n'']
      else if c = CHR 0x0C then [bsl, CHR ''f'']
      else if c = CHR 0x0D then [bsl, CHR ''r'']
      else if (of_char c :: nat) < 32
        then [bsl, CHR ''u'', CHR ''0'', CHR ''0'', hex_digit (of_char c div 16), hex_digit (of_char c mod 16)]
      else [c])"

definition quote_string :: "string \<Rightarrow> string" where
  "quote_string s = dq # concat (map quote_char s) @ [dq]"

fun digits :: "nat \<Rightarrow> string" where
  "digits n = (if n < 10 then [char_of (48 + n)] else digits (n div 10) @ [char_of (48 + n mod 10)])"

declare digits.simps [simp del]

definition number_text :: "int \<Rightarrow> string" where
  "number_text i = (if i < 0 then CHR ''-'' # digits (nat (- i)) else digits (nat i))"

fun JSON_stringify :: "jsval \<Rightarrow> string"
  and stringify_elements :: "jsval list \<Rightarrow> string"
  and stringify_members :: "(string \<times> jsval) list \<Rightarrow> string" where
  "JSON_stringify JNull = ''null''"
| "JSON_stringify (JBool b) = (if b then ''true'' else ''false'')"
| "JSON_stringify (JNum i) = number_text i"
| "JSON_stringify (JStr s) = quote_string s"
| "JSON_stringify (JArr vs) = CHR ''['' # stringify_elements vs @ '']''"
| "JSON_stringify (JObj kvs) = CHR ''{'' # stringify_members kvs @ ''}''"
| "stringify_elements [] = []"
| "stringify_elements [v] = JSON_stringify v"
| "stringify_elements (v # w # vs) = JSON_stringify v @ '','' @ stringify_elements (w # vs)"
| "stringify_members [] = []"
| "stringify_members [(k, v)] = quote_string k @ '':'' @ JSON_stringify v"
| "stringify_members ((k, v) # kv # kvs) =
     quote_string k @ '':'' @ JSON_stringify v @ '','' @ stringify_members (kv # kvs)"

subsection \<open>\<^verbatim>\<open>JSON.parse\<close>\<close>

text \<open>
  A recursive-descent parser of the JSON grammar: white space between tokens, the
  literals, integers without a leading zero, strings with their escapes, arrays and
  objects. \<open>None\<close> is the \<^verbatim>\<open>SyntaxError\<close> of the built-in. A repeated key of an
  object keeps its first position and takes the last value (\<open>obj_define\<close>).
  The parser counts its recursive calls down from a bound that no text reaches:
  lemma \<open>JSON_parse_any_bound\<close> shows that a larger bound gives the same result,
  and lemma \<open>JSON_roundtrip\<close> that the text of a value parses to the value.

  Restrictions of the model: a number with a fraction or an exponent and an escape
  \<^verbatim>\<open>\uXXXX\<close> above \<^verbatim>\<open>\u00ff\<close> are rejected here although the built-in accepts them,
  and a key that is an array index keeps its place instead of moving to the front.
\<close>

definition is_ws :: "char \<Rightarrow> bool" where
  "is_ws c = (c = CHR '' '' \<or> c = CHR 0x09 \<or> c = CHR 0x0A \<or> c = CHR 0x0D)"

fun skip_ws :: "string \<Rightarrow> string" where
  "skip_ws [] = []"
| "skip_ws (c # cs) = (if is_ws c then skip_ws cs else c # cs)"

definition is_digit :: "char \<Rightarrow> bool" where
  "is_digit c = (48 \<le> (of_char c :: nat) \<and> (of_char c :: nat) \<le> 57)"

definition hex_val :: "char \<Rightarrow> nat option" where
  "hex_val c =
     (let n = (of_char c :: nat) in
      if 48 \<le> n \<and> n \<le> 57 then Some (n - 48)
      else if 97 \<le> n \<and> n \<le> 102 then Some (n - 87)
      else if 65 \<le> n \<and> n \<le> 70 then Some (n - 55)
      else None)"

definition hex4 :: "char \<Rightarrow> char \<Rightarrow> char \<Rightarrow> char \<Rightarrow> char option" where
  "hex4 a b c d =
     (case (hex_val a, hex_val b, hex_val c, hex_val d) of
        (Some w, Some x, Some y, Some z) \<Rightarrow>
          (if w = 0 \<and> x = 0 then Some (char_of (y * 16 + z)) else None)
      | _ \<Rightarrow> None)"

definition unescape :: "char \<Rightarrow> char option" where
  "unescape e =
     (if e = dq then Some dq
      else if e = bsl then Some bsl
      else if e = CHR ''/'' then Some CHR ''/''
      else if e = CHR ''b'' then Some (CHR 0x08)
      else if e = CHR ''f'' then Some (CHR 0x0C)
      else if e = CHR ''n'' then Some (CHR 0x0A)
      else if e = CHR ''r'' then Some (CHR 0x0D)
      else if e = CHR ''t'' then Some (CHR 0x09)
      else None)"

fun parse_chars :: "string \<Rightarrow> (string \<times> string) option" where
  "parse_chars [] = None"
| "parse_chars (c # cs) =
     (if c = dq then Some ([], cs)
      else if c = bsl then
        (case cs of
           [] \<Rightarrow> None
         | e # es \<Rightarrow>
             (if e = CHR ''u'' then
                (case es of
                   h1 # h2 # h3 # h4 # rest \<Rightarrow>
                     (case hex4 h1 h2 h3 h4 of
                        None \<Rightarrow> None
                      | Some ch \<Rightarrow> map_option (apfst ((#) ch)) (parse_chars rest))
                 | _ \<Rightarrow> None)
              else
                (case unescape e of
                   None \<Rightarrow> None
                 | Some ch \<Rightarrow> map_option (apfst ((#) ch)) (parse_chars es))))
      else if (of_char c :: nat) < 32 then None
      else map_option (apfst ((#) c)) (parse_chars cs))"

fun take_digits :: "string \<Rightarrow> nat \<Rightarrow> nat \<times> string" where
  "take_digits [] acc = (acc, [])"
| "take_digits (c # cs) acc =
     (if is_digit c then take_digits cs (acc * 10 + (of_char c - 48)) else (acc, c # cs))"

definition parse_nat :: "string \<Rightarrow> (nat \<times> string) option" where
  "parse_nat s =
     (case s of
        [] \<Rightarrow> None
      | c # cs \<Rightarrow>
          (if c = CHR ''0'' then Some (0, cs)
           else if is_digit c then Some (take_digits (c # cs) 0)
           else None))"

definition parse_number :: "string \<Rightarrow> (int \<times> string) option" where
  "parse_number s =
     (case s of
        [] \<Rightarrow> None
      | c # cs \<Rightarrow>
          (if c = CHR ''-'' then map_option (apfst (\<lambda>n. - int n)) (parse_nat cs)
           else map_option (apfst int) (parse_nat (c # cs))))"

definition strip_prefix :: "string \<Rightarrow> string \<Rightarrow> string option" where
  "strip_prefix p s = (if take (length p) s = p then Some (drop (length p) s) else None)"

fun obj_define :: "(string \<times> jsval) list \<Rightarrow> string \<Rightarrow> jsval \<Rightarrow> (string \<times> jsval) list" where
  "obj_define [] k v = [(k, v)]"
| "obj_define ((k', v') # kvs) k v =
     (if k' = k then (k', v) # kvs else (k', v') # obj_define kvs k v)"

fun parse_value :: "nat \<Rightarrow> string \<Rightarrow> (jsval \<times> string) option"
  and parse_elements :: "nat \<Rightarrow> string \<Rightarrow> (jsval list \<times> string) option"
  and parse_members ::
    "nat \<Rightarrow> (string \<times> jsval) list \<Rightarrow> string \<Rightarrow> ((string \<times> jsval) list \<times> string) option" where
  "parse_value 0 s = None"
| "parse_value (Suc n) s =
     (case skip_ws s of
        [] \<Rightarrow> None
      | c # cs \<Rightarrow>
          (if c = CHR ''['' then
             (case skip_ws cs of
                [] \<Rightarrow> None
              | d # ds \<Rightarrow>
                  (if d = CHR '']'' then Some (JArr [], ds)
                   else map_option (apfst JArr) (parse_elements n (d # ds))))
           else if c = CHR ''{'' then
             (case skip_ws cs of
                [] \<Rightarrow> None
              | d # ds \<Rightarrow>
                  (if d = CHR ''}'' then Some (JObj [], ds)
                   else map_option (apfst JObj) (parse_members n [] (d # ds))))
           else if c = dq then map_option (apfst JStr) (parse_chars cs)
           else if c = CHR ''t'' then map_option (Pair (JBool True)) (strip_prefix ''rue'' cs)
           else if c = CHR ''f'' then map_option (Pair (JBool False)) (strip_prefix ''alse'' cs)
           else if c = CHR ''n'' then map_option (Pair JNull) (strip_prefix ''ull'' cs)
           else map_option (apfst JNum) (parse_number (c # cs))))"
| "parse_elements 0 s = None"
| "parse_elements (Suc n) s =
     (case parse_value n s of
        None \<Rightarrow> None
      | Some (v, r1) \<Rightarrow>
          (case skip_ws r1 of
             [] \<Rightarrow> None
           | c # cs \<Rightarrow>
               (if c = CHR '','' then map_option (apfst ((#) v)) (parse_elements n cs)
                else if c = CHR '']'' then Some ([v], cs)
                else None)))"
| "parse_members 0 acc s = None"
| "parse_members (Suc n) acc s =
     (case skip_ws s of
        [] \<Rightarrow> None
      | c # cs \<Rightarrow>
          (if c \<noteq> dq then None
           else
             (case parse_chars cs of
                None \<Rightarrow> None
              | Some (k, r1) \<Rightarrow>
                  (case skip_ws r1 of
                     [] \<Rightarrow> None
                   | c1 # r2 \<Rightarrow>
                       (if c1 \<noteq> CHR '':'' then None
                        else
                          (case parse_value n r2 of
                             None \<Rightarrow> None
                           | Some (v, r3) \<Rightarrow>
                               (case skip_ws r3 of
                                  [] \<Rightarrow> None
                                | c2 # r4 \<Rightarrow>
                                    (if c2 = CHR '','' then parse_members n (obj_define acc k v) r4
                                     else if c2 = CHR ''}'' then Some (obj_define acc k v, r4)
                                     else None))))))))"

definition JSON_parse :: "string \<Rightarrow> jsval option" where
  "JSON_parse s =
     (case parse_value (2 * length s + 2) s of
        None \<Rightarrow> None
      | Some (v, r) \<Rightarrow> (if skip_ws r = [] then Some v else None))"

fun jsval_ok :: "jsval \<Rightarrow> bool" where
  "jsval_ok (JArr vs) = (\<forall>v\<in>set vs. jsval_ok v)"
| "jsval_ok (JObj kvs) = (distinct (map fst kvs) \<and> (\<forall>kv\<in>set kvs. jsval_ok (snd kv)))"
| "jsval_ok v = True"

definition no_digit_start :: "string \<Rightarrow> bool" where
  "no_digit_start r = (case r of [] \<Rightarrow> True | c # cs \<Rightarrow> \<not> is_digit c)"

subsection \<open>Reading properties and building objects\<close>

text \<open>
  \<open>js_prop v k\<close> is the optional-chaining read \<^verbatim>\<open>v?.k\<close>: \<open>None\<close> stands for
  \<^verbatim>\<open>undefined\<close>, which is what the read yields on \<^verbatim>\<open>null\<close>, on a primitive, on an
  array (for the keys the component reads) and on an object without the key.
  \<^verbatim>\<open>undefined\<close> is never a stored value in this model: an object literal whose
  property expression is \<^verbatim>\<open>undefined\<close> is modelled without that property, which reads
  and serialises the same way.

  Strict equality \<^verbatim>\<open>===\<close> is modelled as equality of values. That is what it is on
  strings, numbers, booleans, \<^verbatim>\<open>null\<close> and \<^verbatim>\<open>undefined\<close>, the kinds of value the
  identifiers of this component have; the identity of objects is not represented.
\<close>

fun js_prop :: "jsval \<Rightarrow> string \<Rightarrow> jsval option" where
  "js_prop (JObj kvs) k = map_of kvs k"
| "js_prop v k = None"

fun isArray :: "jsval \<Rightarrow> bool" where
  "isArray (JArr vs) = True"
| "isArray v = False"

fun elements :: "jsval \<Rightarrow> jsval list" where
  "elements (JArr vs) = vs"
| "elements v = []"

definition object_literal :: "(string \<times> jsval option) list \<Rightarrow> jsval" where
  "object_literal ps = JObj (List.map_filter (\<lambda>(k, v). map_option (Pair k) v) ps)"

subsection \<open>The data model\<close>

text \<open>
  The three interfaces of the component. \<^verbatim>\<open>value?: any\<close> is an optional field holding
  any value; the record fields carry a prefix because Isabelle records share one name
  space (\<open>item_id\<close> is \<^verbatim>\<open>AttributeItem.id\<close>, and so on).
\<close>

record AttributeItem =
  item_id :: string
  item_title :: string
  item_value :: "jsval option"

type_synonym Row = "AttributeItem list"

record AttributeInstance =
  attr_id :: string
  attr_title :: string
  children :: "Row list"

record AttributeGroup =
  group_id :: string
  group_title :: string
  attributes :: "AttributeInstance list"

text \<open>
  The attribute templates of the store (\<^verbatim>\<open>state.attributeState.data\<close>); the component
  reads \<^verbatim>\<open>id\<close>, \<^verbatim>\<open>title\<close>, \<^verbatim>\<open>mapto\<close> and \<^verbatim>\<open>children\<close> of a template and \<^verbatim>\<open>id\<close>,
  \<^verbatim>\<open>title\<close>, \<^verbatim>\<open>type\<close> of a child.
\<close>

record AttributeFieldDefinition =
  field_id :: string
  field_title :: string
  field_type :: string

record AttributeTemplate =
  tmpl_id :: string
  tmpl_title :: string
  tmpl_mapto :: "string option"
  tmpl_children :: "AttributeFieldDefinition list option"

definition atts :: "AttributeTemplate list \<Rightarrow> AttributeTemplate list" where
  "atts memoriez = filter (\<lambda>item. tmpl_mapto item = Some ''order'') memoriez"

subsection \<open>The run-time value of a typed document\<close>

text \<open>
  \<^verbatim>\<open>JSON.stringify\<close> prints the properties of an object in the order of their creation.
  The objects of a document are created by three object literals of the component:
  a group as \<^verbatim>\<open>{id, title, attributes}\<close>, an attribute instance as
  \<^verbatim>\<open>{title, id, children}\<close> and a field as \<^verbatim>\<open>{id, title, value}\<close>. The functions below
  give the value a typed document stands for, and \<open>as_groups\<close> reads a value back
  when it has exactly that shape. The cast of the parsed data to \<^verbatim>\<open>AttributeGroup[]\<close>
  is unchecked in the source; a value of another shape has no typed reading here.
\<close>

definition item_json :: "AttributeItem \<Rightarrow> jsval" where
  "item_json f =
     object_literal [(''id'', Some (JStr (item_id f))), (''title'', Some (JStr (item_title f))),
       (''value'', item_value f)]"

definition row_json :: "Row \<Rightarrow> jsval" where
  "row_json row = JArr (map item_json row)"

definition instance_json :: "AttributeInstance \<Rightarrow> jsval" where
  "instance_json a =
     JObj [(''title'', JStr (attr_title a)), (''id'', JStr (attr_id a)),
       (''children'', JArr (map row_json (children a)))]"

definition group_json :: "AttributeGroup \<Rightarrow> jsval" where
  "group_json g =
     JObj [(''id'', JStr (group_id g)), (''title'', JStr (group_title g)),
       (''attributes'', JArr (map instance_json (attributes g)))]"

definition groups_json :: "AttributeGroup list \<Rightarrow> jsval" where
  "groups_json gs = JArr (map group_json gs)"

fun sequence :: "'a option list \<Rightarrow> 'a list option" where
  "sequence [] = Some []"
| "sequence (x # xs) =
     (case x of None \<Rightarrow> None | Some y \<Rightarrow> map_option ((#) y) (sequence xs))"

definition as_item :: "jsval \<Rightarrow> AttributeItem option" where
  "as_item v =
     (case v of
        JObj [(k1, JStr i), (k2, JStr t)] \<Rightarrow>
          (if k1 = ''id'' \<and> k2 = ''title''
           then Some \<lparr>item_id = i, item_title = t, item_value = None\<rparr> else None)
      | JObj [(k1, JStr i), (k2, JStr t), (k3, x)] \<Rightarrow>
          (if k1 = ''id'' \<and> k2 = ''title'' \<and> k3 = ''value''
           then Some \<lparr>item_id = i, item_title = t, item_value = Some x\<rparr> else None)
      | _ \<Rightarrow> None)"

definition as_row :: "jsval \<Rightarrow> Row option" where
  "as_row v = (case v of JArr fs \<Rightarrow> sequence (map as_item fs) | _ \<Rightarrow> None)"

definition as_instance :: "jsval \<Rightarrow> AttributeInstance option" where
  "as_instance v =
     (case v of
        JObj [(k1, JStr t), (k2, JStr i), (k3, JArr rows)] \<Rightarrow>
          (if k1 = ''title'' \<and> k2 = ''id'' \<and> k3 = ''children''
           then map_option (\<lambda>rs. \<lparr>attr_id = i, attr_title = t, children = rs\<rparr>)
                  (sequence (map as_row rows))
           else None)
      | _ \<Rightarrow> None)"

definition as_group :: "jsval \<Rightarrow> AttributeGroup option" where
  "as_group v =
     (case v of
        JObj [(k1, JStr i), (k2, JStr t), (k3, JArr as)] \<Rightarrow>
          (if k1 = ''id'' \<and> k2 = ''title'' \<and> k3 = ''attributes''
           then map_option (\<lambda>xs. \<lparr>group_id = i, group_title = t, attributes = xs\<rparr>)
                  (sequence (map as_instance as))
           else None)
      | _ \<Rightarrow> None)"

definition as_groups :: "jsval list \<Rightarrow> AttributeGroup list option" where
  "as_groups vs = sequence (map as_group vs)"

text \<open>
  Properties of all fields of a document. A value of the model stands for a JavaScript
  value when the keys of each of its objects are distinct (\<open>jsval_ok\<close>);
  \<open>document_ok\<close> says so for every field of a document.
\<close>

definition row_fields :: "(AttributeItem \<Rightarrow> bool) \<Rightarrow> Row \<Rightarrow> bool" where
  "row_fields P row = (\<forall>f\<in>set row. P f)"

definition attr_fields :: "(AttributeItem \<Rightarrow> bool) \<Rightarrow> AttributeInstance \<Rightarrow> bool" where
  "attr_fields P a = (\<forall>row\<in>set (children a). row_fields P row)"

definition group_fields :: "(AttributeItem \<Rightarrow> bool) \<Rightarrow> AttributeGroup \<Rightarrow> bool" where
  "group_fields P g = (\<forall>a\<in>set (attributes g). attr_fields P a)"

definition all_fields :: "(AttributeItem \<Rightarrow> bool) \<Rightarrow> AttributeGroup list \<Rightarrow> bool" where
  "all_fields P gs = (\<forall>g\<in>set gs. group_fields P g)"

definition item_ok :: "AttributeItem \<Rightarrow> bool" where
  "item_ok f = (case item_value f of None \<Rightarrow> True | Some v \<Rightarrow> jsval_ok v)"

definition row_ok :: "Row \<Rightarrow> bool" where
  "row_ok row = row_fields item_ok row"

definition document_ok :: "AttributeGroup list \<Rightarrow> bool" where
  "document_ok gs = all_fields item_ok gs"

subsection \<open>Component state and notices\<close>

text \<open>
  The state of \<^verbatim>\<open>OrderAttribute\<close> that the document depends on: the current snapshot,
  the active group and the last-saved baseline. The dialog and search-result states
  (\<^verbatim>\<open>open\<close>, \<^verbatim>\<open>search\<close>, \<^verbatim>\<open>loading\<close>) only drive the presentation and are left out.
  A handler returns the new state and the toasts it shows.
\<close>

record state =
  groupSelected :: "AttributeGroup list"
  activeGroupId :: "string option"
  savedGroupData :: "AttributeGroup list"

datatype toast = Toast_error string | Toast_info string | Toast_success string

definition initial_state :: state where
  "initial_state = \<lparr>groupSelected = [], activeGroupId = None, savedGroupData = []\<rparr>"

text \<open>\<^verbatim>\<open>!x\<close> on a \<^verbatim>\<open>string | null\<close>: \<^verbatim>\<open>null\<close> and the empty string are falsy.\<close>

definition falsy :: "string option \<Rightarrow> bool" where
  "falsy x = (case x of None \<Rightarrow> True | Some s \<Rightarrow> s = [])"

subsection \<open>Effect 1: parsing the persisted text\<close>

text \<open>
  \<open>parseData raw newId\<close> is the value of \<^verbatim>\<open>parsedGroups\<close> at the end of the first
  effect, with the toasts shown. \<open>raw\<close> is \<^verbatim>\<open>data?.data\<close> (\<open>None\<close> for \<^verbatim>\<open>null\<close> or
  \<^verbatim>\<open>undefined\<close>), \<open>newId\<close> is what \<^verbatim>\<open>generateId()\<close> returns, which depends on the clock
  and a random number and is therefore an argument. An exception of \<^verbatim>\<open>JSON.parse\<close> is
  caught by the effect.
\<close>

definition parseData :: "string option \<Rightarrow> string \<Rightarrow> jsval list \<times> toast list" where
  "parseData raw newId =
     (if falsy raw then ([], [])
      else
        (case JSON_parse (the raw) of
           None \<Rightarrow> ([], [Toast_error ''Failed to load order attributes.''])
         | Some parsedData \<Rightarrow>
             (if isArray parsedData \<and> length (elements parsedData) > 0
                 \<and> js_prop (hd (elements parsedData)) ''attributes'' \<noteq> None
              then (elements parsedData, [])
              else if isArray parsedData \<and> length (elements parsedData) > 0
                 \<and> js_prop (hd (elements parsedData)) ''attributes'' = None
              then ([JObj [(''id'', JStr newId), (''title'', JStr ''Default Group''),
                           (''attributes'', parsedData)]], [])
              else ([], []))))"

text \<open>
  The effect stores the parsed value in both snapshots. The typed state has a value for
  it when the parsed value has the shape of a document (\<open>as_groups\<close>).
\<close>

definition effect1 :: "string option \<Rightarrow> string \<Rightarrow> state \<Rightarrow> (state \<times> toast list) option" where
  "effect1 raw newId st =
     (case parseData raw newId of
        (parsedGroups, toasts) \<Rightarrow>
          map_option
            (\<lambda>gs. (st\<lparr>groupSelected := gs, savedGroupData := gs\<rparr>, toasts))
            (as_groups parsedGroups))"

subsection \<open>Effect 2 and derived state\<close>

text \<open>
  The second effect runs after a render in which the snapshot or the active id changed:
  it activates the first group when none is active, and clears the active id when no
  group is left.
\<close>

definition effect2 :: "state \<Rightarrow> state" where
  "effect2 st =
     (case groupSelected st of
        g # gs \<Rightarrow> (if falsy (activeGroupId st) then st\<lparr>activeGroupId := Some (group_id g)\<rparr> else st)
      | [] \<Rightarrow> (if \<not> falsy (activeGroupId st) then st\<lparr>activeGroupId := None\<rparr> else st))"

definition activeGroup :: "state \<Rightarrow> AttributeGroup option" where
  "activeGroup st =
     (case activeGroupId st of
        None \<Rightarrow> None
      | Some gid \<Rightarrow> find (\<lambda>grp. group_id grp = gid) (groupSelected st))"

text \<open>
  \<^verbatim>\<open>hasChanges\<close> is a memo of the two snapshots. Both are arrays by their type, so the
  \<^verbatim>\<open>Array.isArray\<close> guards of the source always take the \<^verbatim>\<open>JSON.stringify\<close> branch.
\<close>

definition hasChanges :: "AttributeGroup list \<Rightarrow> AttributeGroup list \<Rightarrow> bool" where
  "hasChanges groupSelected' savedGroupData' =
     (let currentString = JSON_stringify (groups_json groupSelected');
          savedString = JSON_stringify (groups_json savedGroupData')
      in currentString \<noteq> savedString)"

subsection \<open>Saving\<close>

text \<open>
  \<^verbatim>\<open>saveAttributeMeta\<close> is asynchronous: it runs up to the call of
  \<^verbatim>\<open>actions.updateRecord\<close>, and resumes when the call settles. Its closure holds the
  \<^verbatim>\<open>groupSelected\<close> of the render that created it, and that is the value it passes to
  \<^verbatim>\<open>setSavedGroupData\<close>. \<open>saveAttributeMeta_request\<close> is the part before the
  \<^verbatim>\<open>await\<close>: the request it sends, if any. \<open>saveAttributeMeta_resume\<close> is the part
  after it, applied to the state of the component at that moment.
  \<open>saveAttributeMeta\<close> is the two parts with nothing in between.

  The call either rejects or resolves with a value (\<open>None\<close> for \<^verbatim>\<open>undefined\<close>);
  reading \<^verbatim>\<open>res.success\<close> of \<^verbatim>\<open>null\<close> or \<^verbatim>\<open>undefined\<close> throws inside the \<^verbatim>\<open>try\<close>.
\<close>

datatype call_result = Rejected | Resolved "jsval option"

record save_request =
  orderId :: string
  orderData :: string
  captured :: "AttributeGroup list"

definition saveAttributeMeta_request :: "string option \<Rightarrow> state \<Rightarrow> save_request option \<times> toast list" where
  "saveAttributeMeta_request data_id st =
     (if \<not> hasChanges (groupSelected st) (savedGroupData st) then (None, [])
      else if falsy data_id then (None, [Toast_error ''Order ID is missing.''])
      else (Some \<lparr>orderId = the data_id,
                  orderData = JSON_stringify (groups_json (groupSelected st)),
                  captured = groupSelected st\<rparr>, []))"

definition saveAttributeMeta_resume :: "save_request \<Rightarrow> call_result \<Rightarrow> state \<Rightarrow> state \<times> toast list" where
  "saveAttributeMeta_resume req outcome st =
     (case outcome of
        Rejected \<Rightarrow> (st, [Toast_error ''An error occurred while saving.''])
      | Resolved None \<Rightarrow> (st, [Toast_error ''An error occurred while saving.''])
      | Resolved (Some JNull) \<Rightarrow> (st, [Toast_error ''An error occurred while saving.''])
      | Resolved (Some res) \<Rightarrow>
          (if js_prop res ''success'' = Some (JStr ''success'')
           then (st\<lparr>savedGroupData := captured req\<rparr>,
                 [Toast_success ''Order attributes updated successfully''])
           else (st, [Toast_error ''Failed to update order attributes.''])))"

definition saveAttributeMeta :: "string option \<Rightarrow> call_result \<Rightarrow> state \<Rightarrow> state \<times> toast list" where
  "saveAttributeMeta data_id outcome st =
     (case saveAttributeMeta_request data_id st of
        (None, toasts) \<Rightarrow> (st, toasts)
      | (Some req, toasts) \<Rightarrow> saveAttributeMeta_resume req outcome st)"

definition save_succeeds :: "call_result \<Rightarrow> bool" where
  "save_succeeds outcome =
     (case outcome of
        Resolved (Some res) \<Rightarrow> js_prop res ''success'' = Some (JStr ''success'')
      | _ \<Rightarrow> False)"

subsection \<open>Draft updates\<close>

text \<open>
  Every handler passes an Immer recipe to \<^verbatim>\<open>setGroupSelected\<close>: the recipe finds a
  group with \<^verbatim>\<open>draft.find\<close>, an attribute with \<^verbatim>\<open>group.attributes.find\<close>, and changes
  what it found; Immer returns the changed copy. \<open>update_first\<close> is that update of the
  first element a predicate accepts.
\<close>

fun update_first :: "('a \<Rightarrow> bool) \<Rightarrow> ('a \<Rightarrow> 'a) \<Rightarrow> 'a list \<Rightarrow> 'a list" where
  "update_first p f [] = []"
| "update_first p f (x # xs) = (if p x then f x # xs else x # update_first p f xs)"

fun remove_first :: "('a \<Rightarrow> bool) \<Rightarrow> 'a list \<Rightarrow> 'a list" where
  "remove_first p [] = []"
| "remove_first p (x # xs) = (if p x then xs else x # remove_first p xs)"

fun findIndex :: "('a \<Rightarrow> bool) \<Rightarrow> 'a list \<Rightarrow> nat option" where
  "findIndex p [] = None"
| "findIndex p (x # xs) = (if p x then Some 0 else map_option Suc (findIndex p xs))"

definition update_group ::
  "string \<Rightarrow> (AttributeGroup \<Rightarrow> AttributeGroup) \<Rightarrow> AttributeGroup list \<Rightarrow> AttributeGroup list" where
  "update_group gid f draft = update_first (\<lambda>g. group_id g = gid) f draft"

definition update_attribute ::
  "string \<Rightarrow> string \<Rightarrow> (AttributeInstance \<Rightarrow> AttributeInstance) \<Rightarrow> AttributeGroup list
     \<Rightarrow> AttributeGroup list" where
  "update_attribute gid attributeId f draft =
     update_group gid
       (\<lambda>grp. grp\<lparr>attributes :=
          update_first (\<lambda>attr. attr_id attr = attributeId) f (attributes grp)\<rparr>) draft"

definition find_attribute :: "string \<Rightarrow> string \<Rightarrow> AttributeGroup list \<Rightarrow> AttributeInstance option" where
  "find_attribute gid attributeId draft =
     (case find (\<lambda>g. group_id g = gid) draft of
        None \<Rightarrow> None
      | Some grp \<Rightarrow> find (\<lambda>attr. attr_id attr = attributeId) (attributes grp))"

text \<open>
  \<^verbatim>\<open>attribute.children[rowIndex] && attribute.children[rowIndex][fieldIndex]\<close>: rows
  and fields are arrays and objects, so the test is that both indices are in range.
  The indices come from \<^verbatim>\<open>Array.prototype.map\<close> in the render and are natural numbers.
\<close>

definition has_field :: "AttributeInstance \<Rightarrow> nat \<Rightarrow> nat \<Rightarrow> bool" where
  "has_field attribute rowIndex fieldIndex =
     (rowIndex < length (children attribute)
        \<and> fieldIndex < length (children attribute ! rowIndex))"

definition update_field ::
  "nat \<Rightarrow> nat \<Rightarrow> (AttributeItem \<Rightarrow> AttributeItem) \<Rightarrow> AttributeInstance \<Rightarrow> AttributeInstance" where
  "update_field rowIndex fieldIndex f attribute =
     (if has_field attribute rowIndex fieldIndex
      then attribute\<lparr>children := (children attribute)
             [rowIndex := (children attribute ! rowIndex)
                [fieldIndex := f (children attribute ! rowIndex ! fieldIndex)]]\<rparr>
      else attribute)"

definition find_field ::
  "string \<Rightarrow> string \<Rightarrow> nat \<Rightarrow> nat \<Rightarrow> AttributeGroup list \<Rightarrow> AttributeItem option" where
  "find_field gid attributeId rowIndex fieldIndex draft =
     (case find_attribute gid attributeId draft of
        None \<Rightarrow> None
      | Some attribute \<Rightarrow>
          (if has_field attribute rowIndex fieldIndex
           then Some (children attribute ! rowIndex ! fieldIndex) else None))"

subsection \<open>The handlers\<close>

text \<open>
  Each handler is the function of the same name in the source, applied to the state of
  the render it belongs to; where the source asks \<^verbatim>\<open>confirm(...)\<close>, the answer is an
  argument. A toast raised inside a recipe is shown once per update in a production
  build, which is what the model returns (React's strict mode runs an updater twice in
  development).
\<close>

definition is_space :: "char \<Rightarrow> bool" where
  "is_space c =
     (c = CHR 0x09 \<or> c = CHR 0x0A \<or> c = CHR 0x0B \<or> c = CHR 0x0C \<or> c = CHR 0x0D
        \<or> c = CHR 0x20 \<or> c = CHR 0xA0)"

definition trim :: "string \<Rightarrow> string" where
  "trim s = rev (dropWhile is_space (rev (dropWhile is_space s)))"

definition handleAddGroup :: "string \<Rightarrow> string \<Rightarrow> state \<Rightarrow> state \<times> toast list" where
  "handleAddGroup newId groupName st =
     (if trim groupName = [] then (st, [Toast_error ''Group name cannot be empty.''])
      else
        (let newGroup = \<lparr>group_id = newId, group_title = trim groupName, attributes = []\<rparr>
         in (st\<lparr>groupSelected := groupSelected st @ [newGroup], activeGroupId := Some newId\<rparr>, [])))"

definition renameGroup :: "string \<Rightarrow> string option \<Rightarrow> state \<Rightarrow> state" where
  "renameGroup groupId newName st =
     (if falsy newName then st
      else st\<lparr>groupSelected :=
             update_group groupId (\<lambda>g. g\<lparr>group_title := trim (the newName)\<rparr>) (groupSelected st)\<rparr>)"

definition handleSelectAttributeForGroup :: "AttributeTemplate \<Rightarrow> state \<Rightarrow> state \<times> toast list" where
  "handleSelectAttributeForGroup attributeDefinition st =
     (if falsy (activeGroupId st) then (st, [])
      else
        (let gid = the (activeGroupId st);
             newAttributeInstance =
               \<lparr>attr_id = tmpl_id attributeDefinition,
                attr_title = tmpl_title attributeDefinition,
                children = []\<rparr>
         in (case find (\<lambda>g. group_id g = gid) (groupSelected st) of
               None \<Rightarrow> (st, [])
             | Some grp \<Rightarrow>
                 (if \<not> (\<exists>attr\<in>set (attributes grp). attr_id attr = attr_id newAttributeInstance)
                  then (st\<lparr>groupSelected :=
                          update_group gid
                            (\<lambda>g. g\<lparr>attributes := attributes g @ [newAttributeInstance]\<rparr>)
                            (groupSelected st)\<rparr>, [])
                  else (st, [Toast_info (''Attribute '' @ [dq] @ attr_title newAttributeInstance
                                @ [dq] @ '' already added to this group.'')])))))"

definition newRow :: "AttributeFieldDefinition list \<Rightarrow> Row" where
  "newRow defs =
     map (\<lambda>child. \<lparr>item_id = field_id child, item_title = field_title child,
                  item_value = Some (if field_type child = ''checkbox'' then JArr [] else JStr [])\<rparr>)
       defs"

definition handleAddAttributeRow ::
  "AttributeTemplate list \<Rightarrow> string \<Rightarrow> state \<Rightarrow> state \<times> toast list" where
  "handleAddAttributeRow templates attributeId st =
     (if falsy (activeGroupId st) then (st, [])
      else
        (case find (\<lambda>att. tmpl_id att = attributeId) templates of
           None \<Rightarrow> (st, [Toast_error ''Attribute definition not found or has no fields.''])
         | Some attributeDefinition \<Rightarrow>
             (case tmpl_children attributeDefinition of
                None \<Rightarrow> (st, [Toast_error ''Attribute definition not found or has no fields.''])
              | Some defs \<Rightarrow>
                  (st\<lparr>groupSelected :=
                        update_attribute (the (activeGroupId st)) attributeId
                          (\<lambda>attribute. attribute\<lparr>children := children attribute @ [newRow defs]\<rparr>)
                          (groupSelected st)\<rparr>, []))))"

text \<open>
  \<^verbatim>\<open>JSON.parse(JSON.stringify(row))\<close>, read back as a row. The result is \<open>None\<close> when
  \<^verbatim>\<open>JSON.parse\<close> throws or yields something that is not a row; lemma
  \<open>json_clone_row\<close> below shows that neither happens.
\<close>

definition json_clone_row :: "Row \<Rightarrow> Row option" where
  "json_clone_row row =
     (case JSON_parse (JSON_stringify (row_json row)) of
        None \<Rightarrow> None
      | Some v \<Rightarrow> as_row v)"

definition splice_insert :: "nat \<Rightarrow> 'a \<Rightarrow> 'a list \<Rightarrow> 'a list" where
  "splice_insert start x xs = take start xs @ [x] @ drop start xs"

definition splice_delete :: "nat \<Rightarrow> 'a list \<Rightarrow> 'a list" where
  "splice_delete start xs = take start xs @ drop (Suc start) xs"

definition handleDuplicateAttributeRow :: "string \<Rightarrow> nat \<Rightarrow> state \<Rightarrow> state option" where
  "handleDuplicateAttributeRow attributeId rowIndex st =
     (if falsy (activeGroupId st) then Some st
      else
        (case find_attribute (the (activeGroupId st)) attributeId (groupSelected st) of
           None \<Rightarrow> Some st
         | Some attribute \<Rightarrow>
             (if rowIndex < length (children attribute)
              then
                (case json_clone_row (children attribute ! rowIndex) of
                   None \<Rightarrow> None
                 | Some rowToDuplicate \<Rightarrow>
                     Some (st\<lparr>groupSelected :=
                       update_attribute (the (activeGroupId st)) attributeId
                         (\<lambda>a. a\<lparr>children := splice_insert (rowIndex + 1) rowToDuplicate (children a)\<rparr>)
                         (groupSelected st)\<rparr>))
              else Some st)))"

definition handleDeleteAttributeRow :: "string \<Rightarrow> nat \<Rightarrow> bool \<Rightarrow> state \<Rightarrow> state" where
  "handleDeleteAttributeRow attributeId rowIndex confirm st =
     (if falsy (activeGroupId st) then st
      else if \<not> confirm then st
      else st\<lparr>groupSelected :=
             update_attribute (the (activeGroupId st)) attributeId
               (\<lambda>attribute. attribute\<lparr>children := splice_delete rowIndex (children attribute)\<rparr>)
               (groupSelected st)\<rparr>)"

definition handleDeleteAttributeInstance :: "string \<Rightarrow> bool \<Rightarrow> state \<Rightarrow> state" where
  "handleDeleteAttributeInstance attributeId confirm st =
     (if falsy (activeGroupId st) then st
      else if \<not> confirm then st
      else st\<lparr>groupSelected :=
             update_group (the (activeGroupId st))
               (\<lambda>grp. grp\<lparr>attributes :=
                  filter (\<lambda>attr. attr_id attr \<noteq> attributeId) (attributes grp)\<rparr>)
               (groupSelected st)\<rparr>)"

definition handleUpdateFieldValue :: "string \<Rightarrow> nat \<Rightarrow> nat \<Rightarrow> jsval \<Rightarrow> state \<Rightarrow> state" where
  "handleUpdateFieldValue attributeId rowIndex fieldIndex newValue st =
     (if falsy (activeGroupId st) then st
      else st\<lparr>groupSelected :=
             update_attribute (the (activeGroupId st)) attributeId
               (update_field rowIndex fieldIndex (\<lambda>field. field\<lparr>item_value := Some newValue\<rparr>))
               (groupSelected st)\<rparr>)"

text \<open>
  The body of the recipe of \<^verbatim>\<open>handleUpdateCheckboxValue\<close> once the field is found:
  the field it leaves and the toast it shows.
\<close>

definition checkbox_array :: "AttributeItem \<Rightarrow> jsval list" where
  "checkbox_array field = (case item_value field of Some (JArr vs) \<Rightarrow> vs | _ \<Rightarrow> [])"

definition existingIndex :: "jsval \<Rightarrow> jsval list \<Rightarrow> nat option" where
  "existingIndex selectedMetaItem vs = findIndex (\<lambda>v. js_prop v ''id'' = js_prop selectedMetaItem ''id'') vs"

definition checkbox_value :: "jsval \<Rightarrow> bool \<Rightarrow> AttributeItem \<Rightarrow> AttributeItem" where
  "checkbox_value selectedMetaItem add field =
     (let vs = checkbox_array field
      in case existingIndex selectedMetaItem vs of
           None \<Rightarrow>
             (if add then field\<lparr>item_value := Some (JArr (vs @ [selectedMetaItem]))\<rparr>
              else field\<lparr>item_value := Some (JArr vs)\<rparr>)
         | Some i \<Rightarrow>
             (if add then field\<lparr>item_value := Some (JArr vs)\<rparr>
              else field\<lparr>item_value := Some (JArr (splice_delete i vs))\<rparr>))"

definition checkbox_toast :: "jsval \<Rightarrow> bool \<Rightarrow> AttributeItem \<Rightarrow> toast list" where
  "checkbox_toast selectedMetaItem add field =
     (case existingIndex selectedMetaItem (checkbox_array field) of
        None \<Rightarrow> (if add then [] else [Toast_error ''Item not found to remove.''])
      | Some i \<Rightarrow> (if add then [Toast_error ''Already selected.''] else []))"

definition handleUpdateCheckboxValue ::
  "string \<Rightarrow> nat \<Rightarrow> nat \<Rightarrow> jsval \<Rightarrow> bool \<Rightarrow> state \<Rightarrow> state \<times> toast list" where
  "handleUpdateCheckboxValue attributeId rowIndex fieldIndex selectedMetaItem add st =
     (if falsy (activeGroupId st) then (st, [])
      else
        (case find_field (the (activeGroupId st)) attributeId rowIndex fieldIndex (groupSelected st) of
           None \<Rightarrow> (st, [])
         | Some field \<Rightarrow>
             (st\<lparr>groupSelected :=
                   update_attribute (the (activeGroupId st)) attributeId
                     (update_field rowIndex fieldIndex (checkbox_value selectedMetaItem add))
                     (groupSelected st)\<rparr>,
              checkbox_toast selectedMetaItem add field)))"

definition handleDeleteCheckboxSingleValue ::
  "string \<Rightarrow> nat \<Rightarrow> nat \<Rightarrow> jsval \<Rightarrow> bool \<Rightarrow> state \<Rightarrow> state \<times> toast list" where
  "handleDeleteCheckboxSingleValue attributeId rowIndex fieldIndex valueToRemove confirm st =
     (if falsy (activeGroupId st) then (st, [])
      else if \<not> confirm then (st, [])
      else handleUpdateCheckboxValue attributeId rowIndex fieldIndex valueToRemove False st)"

text \<open>
  \<^verbatim>\<open>handleDeleteGroup\<close> queues the removal and then reads \<^verbatim>\<open>groupSelected\<close> of its
  own render, that is, the list before the removal.
\<close>

definition handleDeleteGroup :: "string \<Rightarrow> bool \<Rightarrow> state \<Rightarrow> state" where
  "handleDeleteGroup groupId confirm st =
     (if \<not> confirm then st
      else
        (let removed = st\<lparr>groupSelected := remove_first (\<lambda>g. group_id g = groupId) (groupSelected st)\<rparr>
         in if length (groupSelected st) > 0
            then removed\<lparr>activeGroupId := Some (group_id (hd (groupSelected st)))\<rparr>
            else removed))"

text \<open>
  Selecting a search result: the dialog data say which field is being edited and of
  which type it is; the item is a record of the search.
\<close>

definition selectedMetaItem :: "jsval \<Rightarrow> jsval" where
  "selectedMetaItem item =
     object_literal [(''id'', js_prop item ''id''), (''title'', js_prop item ''key''),
       (''value'', js_prop item ''value'')]"

definition search_onSelect ::
  "string \<Rightarrow> nat \<Rightarrow> nat \<Rightarrow> string \<Rightarrow> jsval \<Rightarrow> state \<Rightarrow> state \<times> toast list" where
  "search_onSelect attributeId rowIndex fieldIndex fieldType item st =
     (if fieldType = ''checkbox''
      then handleUpdateCheckboxValue attributeId rowIndex fieldIndex (selectedMetaItem item) True st
      else (handleUpdateFieldValue attributeId rowIndex fieldIndex (selectedMetaItem item) st, []))"

subsection \<open>The operations of the editor\<close>

text \<open>
  The events through which the rendered component reaches its handlers, each with
  the arguments the render passes. After the handler the component renders again and
  the second effect runs.
\<close>

datatype operation =
    CreateGroup string string
  | RenameGroup string "string option"
  | SelectTab string
  | DeleteGroup string bool
  | SelectAttributeForGroup AttributeTemplate
  | AddRow string
  | DuplicateRow string nat
  | DeleteRow string nat bool
  | DeleteAttributeInstance string bool
  | SetFieldText string nat nat string
  | SelectSearchResult string nat nat string jsval
  | RemoveCheckboxValue string nat nat jsval bool

fun handle :: "AttributeTemplate list \<Rightarrow> operation \<Rightarrow> state \<Rightarrow> (state \<times> toast list) option" where
  "handle ts (CreateGroup newId groupName) st = Some (handleAddGroup newId groupName st)"
| "handle ts (RenameGroup groupId newName) st = Some (renameGroup groupId newName st, [])"
| "handle ts (SelectTab groupId) st = Some (st\<lparr>activeGroupId := Some groupId\<rparr>, [])"
| "handle ts (DeleteGroup groupId confirm) st = Some (handleDeleteGroup groupId confirm st, [])"
| "handle ts (SelectAttributeForGroup d) st = Some (handleSelectAttributeForGroup d st)"
| "handle ts (AddRow attributeId) st = Some (handleAddAttributeRow (atts ts) attributeId st)"
| "handle ts (DuplicateRow attributeId rowIndex) st =
     map_option (\<lambda>st'. (st', [])) (handleDuplicateAttributeRow attributeId rowIndex st)"
| "handle ts (DeleteRow attributeId rowIndex confirm) st =
     Some (handleDeleteAttributeRow attributeId rowIndex confirm st, [])"
| "handle ts (DeleteAttributeInstance attributeId confirm) st =
     Some (handleDeleteAttributeInstance attributeId confirm st, [])"
| "handle ts (SetFieldText attributeId rowIndex fieldIndex s) st =
     Some (handleUpdateFieldValue attributeId rowIndex fieldIndex (JStr s) st, [])"
| "handle ts (SelectSearchResult attributeId rowIndex fieldIndex fieldType item) st =
     Some (search_onSelect attributeId rowIndex fieldIndex fieldType item st)"
| "handle ts (RemoveCheckboxValue attributeId rowIndex fieldIndex v confirm) st =
     Some (handleDeleteCheckboxSingleValue attributeId rowIndex fieldIndex v confirm st)"

definition apply_operation ::
  "AttributeTemplate list \<Rightarrow> operation \<Rightarrow> state \<Rightarrow> (state \<times> toast list) option" where
  "apply_operation ts ev st = map_option (apfst effect2) (handle ts ev st)"

subsection \<open>Invariants of a document\<close>

definition unique_ids :: "jsval option \<Rightarrow> bool" where
  "unique_ids x = (case x of Some (JArr vs) \<Rightarrow> distinct (map (\<lambda>v. js_prop v ''id'') vs) | _ \<Rightarrow> True)"

definition checkbox_ids_unique :: "AttributeGroup list \<Rightarrow> bool" where
  "checkbox_ids_unique gs = all_fields (\<lambda>f. unique_ids (item_value f)) gs"

definition instance_ids_unique :: "AttributeGroup list \<Rightarrow> bool" where
  "instance_ids_unique gs = (\<forall>g\<in>set gs. distinct (map attr_id (attributes g)))"

definition rows_of :: "state \<Rightarrow> string \<Rightarrow> Row list option" where
  "rows_of st attributeId =
     (if falsy (activeGroupId st) then None
      else map_option children
             (find_attribute (the (activeGroupId st)) attributeId (groupSelected st)))"

subsection \<open>Example data\<close>

text \<open>Two groups and a response of the server, for the concrete instances below.\<close>

abbreviation group_a :: AttributeGroup where
  "group_a \<equiv> \<lparr>group_id = ''a'', group_title = ''A'', attributes = []\<rparr>"

abbreviation group_b :: AttributeGroup where
  "group_b \<equiv> \<lparr>group_id = ''b'', group_title = ''B'', attributes = []\<rparr>"

abbreviation response_success :: call_result where
  "response_success \<equiv> Resolved (Some (JObj [(''success'', JStr ''success'')]))"

abbreviation response_failure :: call_result where
  "response_failure \<equiv> Resolved (Some (JObj [(''success'', JStr ''error'')]))"

text \<open>A document with one group, one attribute, one row and one field, and a search result.\<close>

abbreviation ex_field :: "jsval option \<Rightarrow> AttributeItem" where
  "ex_field v \<equiv> \<lparr>item_id = ''f1'', item_title = ''Colour'', item_value = v\<rparr>"

abbreviation ex_doc :: "jsval option \<Rightarrow> AttributeGroup list" where
  "ex_doc v \<equiv> [\<lparr>group_id = ''a'', group_title = ''A'',
      attributes = [\<lparr>attr_id = ''7'', attr_title = ''Size'', children = [[ex_field v]]\<rparr>]\<rparr>]"

abbreviation ex_state :: "jsval option \<Rightarrow> state" where
  "ex_state v \<equiv> \<lparr>groupSelected = ex_doc v, activeGroupId = Some ''a'', savedGroupData = []\<rparr>"

abbreviation ex_item :: "int \<Rightarrow> jsval" where
  "ex_item n \<equiv> JObj [(''id'', JNum n), (''title'', JStr ''red''), (''value'', JStr ''#f00'')]"

text \<open>A template of the store and a group that holds an instance of it.\<close>

abbreviation ex_template :: AttributeTemplate where
  "ex_template \<equiv> \<lparr>tmpl_id = ''7'', tmpl_title = ''Size'', tmpl_mapto = Some ''order'',
      tmpl_children = Some [\<lparr>field_id = ''f1'', field_title = ''Colour'', field_type = ''checkbox''\<rparr>]\<rparr>"

abbreviation group_a_with_size :: AttributeGroup where
  "group_a_with_size \<equiv> \<lparr>group_id = ''a'', group_title = ''A'',
      attributes = [\<lparr>attr_id = ''7'', attr_title = ''Size'', children = []\<rparr>]\<rparr>"

subsection \<open>Sequences of operations\<close>

text \<open>
  The payload of an operation is a JavaScript value: the search result that was
  selected, or the entry of the array whose delete button was clicked.
\<close>

fun operation_ok :: "operation \<Rightarrow> bool" where
  "operation_ok (SelectSearchResult attributeId rowIndex fieldIndex fieldType item) = jsval_ok item"
| "operation_ok (RemoveCheckboxValue attributeId rowIndex fieldIndex v confirm) = jsval_ok v"
| "operation_ok ev = True"

fun apply_operations :: "AttributeTemplate list \<Rightarrow> operation list \<Rightarrow> state \<Rightarrow> state option" where
  "apply_operations ts [] st = Some st"
| "apply_operations ts (ev # evs) st =
     (case apply_operation ts ev st of
        None \<Rightarrow> None
      | Some (st', toasts) \<Rightarrow> apply_operations ts evs st')"

section \<open>Properties of the JSON functions\<close>

subsection \<open>Strings and numbers\<close>

lemma hex_val_hex_digit: "d < 16 \<Longrightarrow> hex_val (hex_digit d) = Some d"
  by (simp add: hex_val_def hex_digit_def Let_def)

lemma hex_val_zero: "hex_val (CHR ''0'') = Some 0"
  by (simp add: hex_val_def)

lemma hex4_ctrl:
  "n < 32 \<Longrightarrow> hex4 (CHR ''0'') (CHR ''0'') (hex_digit (n div 16)) (hex_digit (n mod 16)) = Some (char_of n)"
  by (simp add: hex4_def hex_val_hex_digit hex_val_zero less_mult_imp_div_less)

lemma digits_nonempty: "digits n \<noteq> []"
  by (subst digits.simps) simp

lemma is_digit_char_of: "d < 10 \<Longrightarrow> is_digit (char_of (48 + (d::nat)))"
  by (simp add: is_digit_def)

lemma digits_all: "c \<in> set (digits n) \<Longrightarrow> is_digit c"
proof (induction n arbitrary: c rule: digits.induct)
  case (1 n)
  show ?case
  proof (cases "n < 10")
    case True
    with 1(2) show ?thesis by (simp add: digits.simps [of n] is_digit_char_of)
  next
    case False
    with 1 show ?thesis by (auto simp: digits.simps [of n] is_digit_char_of)
  qed
qed

lemma parse_chars_quote_char:
  "parse_chars (quote_char c @ s) = map_option (apfst ((#) c)) (parse_chars s)"
proof (cases "(of_char c :: nat) < 32")
  case True
  then have "char_of (of_char c :: nat) = c" by simp
  with True show ?thesis
    by (auto simp: quote_char_def dq_def bsl_def unescape_def hex4_ctrl)
next
  case False
  then show ?thesis
    by (auto simp: quote_char_def dq_def bsl_def unescape_def)
qed

lemma parse_chars_quoted:
  "parse_chars (concat (map quote_char s) @ dq # r) = Some (s, r)"
  by (induction s) (simp_all add: parse_chars_quote_char)

lemma take_digits_append:
  "\<forall>c\<in>set ds. is_digit c \<Longrightarrow>
   take_digits (ds @ r) acc = take_digits r (foldl (\<lambda>a c. a * 10 + (of_char c - 48)) acc ds)"
  by (induction ds arbitrary: acc) simp_all

lemma foldl_digits:
  "foldl (\<lambda>a c. a * 10 + (of_char c - 48)) acc (digits n) = acc * 10 ^ length (digits n) + n"
proof (induction n arbitrary: acc rule: digits.induct)
  case (1 n)
  show ?case
  proof (cases "n < 10")
    case True
    then show ?thesis by (simp add: digits.simps [of n])
  next
    case False
    with 1 [of acc] show ?thesis
      by (simp add: digits.simps [of n] algebra_simps)
  qed
qed


lemma take_digits_stop: "no_digit_start r \<Longrightarrow> take_digits r acc = (acc, r)"
  by (cases r) (simp_all add: no_digit_start_def)

lemma hd_digits: "0 < n \<Longrightarrow> hd (digits n) \<noteq> CHR ''0''"
proof (induction n rule: digits.induct)
  case (1 n)
  show ?case
  proof (cases "n < 10")
    case True
    have "(of_char (char_of (48 + n)) :: nat) \<noteq> of_char (CHR ''0'')"
      using True 1(2) by simp
    then have "char_of (48 + n) \<noteq> CHR ''0''" by metis
    with True show ?thesis by (simp add: digits.simps [of n])
  next
    case False
    with 1 show ?thesis
      by (simp add: digits.simps [of n] digits_nonempty)
  qed
qed

lemma char_of_48: "char_of (48::nat) = CHR ''0''"
proof -
  have "char_of (of_char (CHR ''0'') :: nat) = CHR ''0''" by (rule char_of_char)
  then show ?thesis by simp
qed

lemma digits_zero: "digits 0 = ''0''"
  by (simp add: digits.simps [of 0] char_of_48)

lemma parse_nat_digits:
  assumes "no_digit_start r"
  shows "parse_nat (digits n @ r) = Some (n, r)"
proof (cases "n = 0")
  case True
  then show ?thesis by (simp add: digits_zero parse_nat_def)
next
  case False
  obtain c cs where cs: "digits n = c # cs"
    using digits_nonempty [of n] by (cases "digits n") auto
  with False hd_digits [of n] have c0: "c \<noteq> CHR ''0''" by simp
  have cd: "is_digit c" using digits_all [of c n] cs by simp
  have "take_digits (digits n @ r) 0 = (n, r)"
    using digits_all [of _ n] by (simp add: take_digits_append foldl_digits take_digits_stop assms)
  with c0 cd cs show ?thesis by (simp add: parse_nat_def)
qed

lemma parse_number_text:
  assumes "no_digit_start r"
  shows "parse_number (number_text i @ r) = Some (i, r)"
proof (cases "i < 0")
  case True
  with parse_nat_digits [OF assms, of "nat (- i)"] show ?thesis
    by (simp add: parse_number_def number_text_def)
next
  case False
  obtain c cs where cs: "digits (nat i) = c # cs"
    using digits_nonempty [of "nat i"] by (cases "digits (nat i)") auto
  have "is_digit c" using digits_all [of c "nat i"] cs by simp
  then have "c \<noteq> CHR ''-''" by (auto simp: is_digit_def)
  with False parse_nat_digits [OF assms, of "nat i"] cs show ?thesis
    by (simp add: parse_number_def number_text_def)
qed

subsection \<open>Parsing the text of a value gives the value back\<close>

lemma number_text_start:
  "\<exists>c cs. number_text i = c # cs \<and> (c = CHR ''-'' \<or> is_digit c)"
proof (cases "i < 0")
  case True
  then show ?thesis by (simp add: number_text_def)
next
  case False
  obtain c cs where cs: "digits (nat i) = c # cs"
    using digits_nonempty [of "nat i"] by (cases "digits (nat i)") auto
  have "is_digit c" using digits_all [of c "nat i"] cs by simp
  with False cs show ?thesis by (simp add: number_text_def)
qed

lemma parse_value_number:
  assumes "no_digit_start r"
  shows "parse_value (Suc n) (number_text i @ r) = Some (JNum i, r)"
proof -
  obtain c cs where cs: "number_text i = c # cs" and c: "c = CHR ''-'' \<or> is_digit c"
    using number_text_start by blast
  from c have "\<not> is_ws c" "c \<noteq> CHR ''[''" "c \<noteq> CHR ''{''" "c \<noteq> dq"
    "c \<noteq> CHR ''t''" "c \<noteq> CHR ''f''" "c \<noteq> CHR ''n''"
    by (auto simp: is_ws_def is_digit_def dq_def)
  then have "parse_value (Suc n) (c # cs @ r) = map_option (apfst JNum) (parse_number (c # cs @ r))"
    by simp
  with parse_number_text [OF assms, of i] cs show ?thesis by simp
qed

lemma stringify_start:
  "\<exists>c cs. JSON_stringify v = c # cs \<and> \<not> is_ws c \<and> c \<noteq> CHR '']'' \<and> c \<noteq> CHR ''}''"
proof (cases v)
  case (JNum i)
  obtain c cs where "number_text i = c # cs" "c = CHR ''-'' \<or> is_digit c"
    using number_text_start by blast
  with JNum show ?thesis by (auto simp: is_ws_def is_digit_def)
qed (auto simp: is_ws_def quote_string_def dq_def)

lemma skip_ws_stringify: "skip_ws (JSON_stringify v @ r) = JSON_stringify v @ r"
  using stringify_start [of v] by auto

lemma elements_start:
  "vs \<noteq> [] \<Longrightarrow>
   \<exists>c cs. stringify_elements vs = c # cs \<and> \<not> is_ws c \<and> c \<noteq> CHR '']'' \<and> c \<noteq> CHR ''}''"
proof (cases vs)
  case (Cons v ws)
  then show ?thesis using stringify_start [of v] by (cases ws) auto
qed simp

lemma members_start:
  "kvs \<noteq> [] \<Longrightarrow> \<exists>cs. stringify_members kvs = dq # cs"
proof (cases kvs)
  case (Cons kv ws)
  then show ?thesis by (cases kv; cases ws) (auto simp: quote_string_def)
qed simp

lemma obj_define_fresh: "k \<notin> fst ` set kvs \<Longrightarrow> obj_define kvs k v = kvs @ [(k, v)]"
  by (induction kvs) auto

lemma foldl_obj_define:
  "distinct (map fst (acc @ kvs)) \<Longrightarrow>
   foldl (\<lambda>a kv. obj_define a (fst kv) (snd kv)) acc kvs = acc @ kvs"
proof (induction kvs arbitrary: acc)
  case (Cons kv kvs)
  from Cons.prems have "fst kv \<notin> fst ` set acc" by auto
  then have "obj_define acc (fst kv) (snd kv) = acc @ [kv]"
    by (simp add: obj_define_fresh)
  moreover from Cons.prems have "distinct (map fst ((acc @ [kv]) @ kvs))" by simp
  ultimately show ?case using Cons.IH [of "acc @ [kv]"] by simp
qed simp

lemma dq_facts:
  "\<not> is_ws dq" "dq \<noteq> CHR ''[''" "dq \<noteq> CHR ''{''" "dq \<noteq> CHR ''}''" "dq \<noteq> CHR '']''"
  by (simp_all add: dq_def is_ws_def)

lemma ws_facts:
  "\<not> is_ws (CHR ''['')" "\<not> is_ws (CHR ''{'')" "\<not> is_ws (CHR '']'')" "\<not> is_ws (CHR ''}'')"
  "\<not> is_ws (CHR '','')" "\<not> is_ws (CHR '':'')"
  by (simp_all add: is_ws_def)

lemma no_digit_start_delims:
  "no_digit_start (CHR '']'' # r)" "no_digit_start (CHR ''}'' # r)" "no_digit_start (CHR '','' # r)"
  "no_digit_start []"
  by (simp_all add: no_digit_start_def is_digit_def)

lemma parse_stringify:
  "jsval_ok v \<Longrightarrow> length (JSON_stringify v) \<le> n \<Longrightarrow> no_digit_start r \<Longrightarrow>
     parse_value n (JSON_stringify v @ r) = Some (v, r)"
  "vs \<noteq> [] \<Longrightarrow> \<forall>v\<in>set vs. jsval_ok v \<Longrightarrow> length (stringify_elements vs) < n \<Longrightarrow>
     parse_elements n (stringify_elements vs @ CHR '']'' # r) = Some (vs, r)"
  "kvs \<noteq> [] \<Longrightarrow> \<forall>kv\<in>set kvs. jsval_ok (snd kv) \<Longrightarrow> length (stringify_members kvs) < n \<Longrightarrow>
     parse_members n acc (stringify_members kvs @ CHR ''}'' # r) =
       Some (foldl (\<lambda>a kv. obj_define a (fst kv) (snd kv)) acc kvs, r)"
proof (induction v and vs and kvs arbitrary: n r and n r and n acc r
    rule: JSON_stringify_stringify_elements_stringify_members.induct)
  case 1
  then obtain m where "n = Suc m" by (cases n) auto
  then show ?case by (simp add: is_ws_def dq_def strip_prefix_def)
next
  case (2 b)
  then obtain m where "n = Suc m" by (cases n) (auto split: if_splits)
  then show ?case by (simp add: is_ws_def dq_def strip_prefix_def)
next
  case (3 i)
  have "number_text i \<noteq> []" using number_text_start [of i] by auto
  with 3 obtain m where "n = Suc m" by (cases n) auto
  with 3 show ?case by (simp add: parse_value_number del: parse_value.simps)
next
  case (4 s)
  then obtain m where "n = Suc m" by (cases n) (auto simp: quote_string_def)
  then show ?case by (simp add: quote_string_def dq_facts parse_chars_quoted)
next
  case (5 vs)
  then obtain m where n: "n = Suc m" by (cases n) auto
  show ?case
  proof (cases "vs = []")
    case True
    with n show ?thesis by (simp add: is_ws_def)
  next
    case False
    then obtain c cs where cs: "stringify_elements vs = c # cs"
      and c: "\<not> is_ws c" "c \<noteq> CHR '']''"
      using elements_start [of vs] by blast
    have "parse_elements m (stringify_elements vs @ CHR '']'' # r) = Some (vs, r)"
      using 5 False n by (intro "5.IH") auto
    with cs c n show ?thesis by (simp add: is_ws_def)
  qed
next
  case (6 kvs)
  then obtain m where n: "n = Suc m" by (cases n) auto
  show ?case
  proof (cases "kvs = []")
    case True
    with n show ?thesis by (simp add: is_ws_def)
  next
    case False
    then obtain cs where cs: "stringify_members kvs = dq # cs"
      using members_start [of kvs] by blast
    have "parse_members m [] (stringify_members kvs @ CHR ''}'' # r) =
        Some (foldl (\<lambda>a kv. obj_define a (fst kv) (snd kv)) [] kvs, r)"
      using 6 False n by (intro "6.IH") auto
    moreover have "foldl (\<lambda>a kv. obj_define a (fst kv) (snd kv)) [] kvs = kvs"
      using 6(2) foldl_obj_define [of "[]" kvs] by simp
    ultimately show ?thesis using cs n by (simp add: ws_facts dq_facts)
  qed
next
  case 7
  then show ?case by simp
next
  case (8 v)
  then obtain m where n: "n = Suc m" by (cases n) auto
  have "parse_value m (JSON_stringify v @ CHR '']'' # r) = Some (v, CHR '']'' # r)"
    using 8 n by (intro "8.IH") (auto simp: no_digit_start_delims)
  with n show ?case by (simp add: is_ws_def)
next
  case (9 v w vs)
  then obtain m where n: "n = Suc m" by (cases n) auto
  have "parse_value m (JSON_stringify v @ CHR '','' # stringify_elements (w # vs) @ CHR '']'' # r)
      = Some (v, CHR '','' # stringify_elements (w # vs) @ CHR '']'' # r)"
    using 9 n by (intro "9.IH"(1)) (auto simp: no_digit_start_delims)
  moreover have "parse_elements m (stringify_elements (w # vs) @ CHR '']'' # r) = Some (w # vs, r)"
    using 9(3-) n by (intro "9.IH"(2)) auto
  ultimately show ?case using n by (simp add: is_ws_def)
next
  case 10
  then show ?case by simp
next
  case (11 k v)
  then obtain m where n: "n = Suc m" by (cases n) auto
  have "parse_value m (JSON_stringify v @ CHR ''}'' # r) = Some (v, CHR ''}'' # r)"
    using 11 n by (intro "11.IH") (auto simp: no_digit_start_delims)
  with n show ?case by (simp add: quote_string_def dq_facts parse_chars_quoted ws_facts)
next
  case (12 k v kv kvs)
  then obtain m where n: "n = Suc m" by (cases n) auto
  have "parse_value m (JSON_stringify v @ CHR '','' # stringify_members (kv # kvs) @ CHR ''}'' # r)
      = Some (v, CHR '','' # stringify_members (kv # kvs) @ CHR ''}'' # r)"
    using 12 n by (intro "12.IH"(1)) (auto simp: no_digit_start_delims)
  moreover have "parse_members m (obj_define acc k v) (stringify_members (kv # kvs) @ CHR ''}'' # r) =
       Some (foldl (\<lambda>a kv. obj_define a (fst kv) (snd kv)) (obj_define acc k v) (kv # kvs), r)"
    using 12(3-) n by (intro "12.IH"(2)) auto
  ultimately show ?case using n
    by (simp add: quote_string_def dq_facts parse_chars_quoted ws_facts)
qed

lemma JSON_roundtrip: "jsval_ok v \<Longrightarrow> JSON_parse (JSON_stringify v) = Some v"
  using parse_stringify(1) [of v "2 * length (JSON_stringify v) + 2" "[]"]
  by (simp add: JSON_parse_def no_digit_start_delims)

subsection \<open>The bound of the parser does not matter\<close>

text \<open>
  A successful parse consumes at least one character, so the depth of the recursion is
  bounded by the length of the text, and a bound larger than the one \<open>JSON_parse\<close>
  uses gives the same result. Hence \<open>None\<close> is always a syntax error, never the
  bound.
\<close>

lemma length_skip_ws: "length (skip_ws s) \<le> length s"
  by (induction s) auto

lemma skip_ws_Cons_length: "skip_ws s = c # cs \<Longrightarrow> length cs < length s"
  using length_skip_ws [of s] by simp

lemma parse_chars_shorter: "parse_chars s = Some (k, r) \<Longrightarrow> length r < length s"
proof (induction s arbitrary: k r rule: parse_chars.induct)
  case 1
  then show ?case by simp
next
  case (2 c cs)
  then show ?case
    by (auto split: if_splits list.splits option.splits) fastforce+
qed

lemma take_digits_length: "length (snd (take_digits s acc)) \<le> length s"
proof (induction s arbitrary: acc)
  case Nil
  then show ?case by simp
next
  case (Cons a s)
  show ?case
    using Cons [of "acc * 10 + (of_char a - 48)"] by (simp add: le_SucI)
qed

lemma parse_nat_shorter:
  assumes "parse_nat s = Some (n, r)"
  shows "length r < length s"
proof (cases s)
  case Nil
  with assms show ?thesis by (simp add: parse_nat_def)
next
  case (Cons c cs)
  show ?thesis
  proof (cases "c = CHR ''0''")
    case True
    with assms Cons show ?thesis by (simp add: parse_nat_def)
  next
    case False
    with assms Cons have d: "is_digit c" and t: "take_digits (c # cs) 0 = (n, r)"
      by (auto simp: parse_nat_def split: if_splits)
    from d t have "r = snd (take_digits cs (of_char c - 48))" by simp
    then have "length r \<le> length cs" by (simp add: take_digits_length)
    with Cons show ?thesis by simp
  qed
qed

lemma parse_number_shorter: "parse_number s = Some (i, r) \<Longrightarrow> length r < length s"
  by (cases s) (auto simp: parse_number_def split: if_splits dest!: parse_nat_shorter)

lemma strip_prefix_length: "strip_prefix p s = Some r \<Longrightarrow> length r \<le> length s"
  by (auto simp: strip_prefix_def split: if_splits)

lemma parse_shorter:
  "parse_value n s = Some (v, r) \<Longrightarrow> length r < length s"
  "parse_elements n s = Some (vs, r) \<Longrightarrow> length r < length s"
  "parse_members n acc s = Some (kvs, r) \<Longrightarrow> length r < length s"
proof (induction n s and n s and n acc s arbitrary: v r and vs r and kvs r
    rule: parse_value_parse_elements_parse_members.induct)
  case (1 s)
  then show ?case by simp
next
  case (2 n s)
  from "2.prems" obtain c cs where sk: "skip_ws s = c # cs"
    by (cases "skip_ws s") auto
  then have cs: "length cs < length s" by (rule skip_ws_Cons_length)
  show ?case
  proof (cases "c = CHR ''[''")
    case True
    from "2.prems" sk True obtain d ds where sk2: "skip_ws cs = d # ds"
      by (cases "skip_ws cs") auto
    then have ds: "length ds < length cs" by (rule skip_ws_Cons_length)
    show ?thesis
    proof (cases "d = CHR '']''")
      case True
      with "2.prems" sk \<open>c = CHR ''[''\<close> sk2 ds cs show ?thesis by auto
    next
      case False
      with "2.prems" sk \<open>c = CHR ''[''\<close> sk2 obtain ws where
        "parse_elements n (d # ds) = Some (ws, r)" by auto
      with "2.IH"(1) [OF sk \<open>c = CHR ''[''\<close> sk2 False] have "length r < length (d # ds)" by blast
      with ds cs show ?thesis by simp
    qed
  next
    case nb: False
    show ?thesis
    proof (cases "c = CHR ''{''")
      case True
      from "2.prems" sk nb True obtain d ds where sk2: "skip_ws cs = d # ds"
        by (cases "skip_ws cs") auto
      then have ds: "length ds < length cs" by (rule skip_ws_Cons_length)
      show ?thesis
      proof (cases "d = CHR ''}''")
        case True
        with "2.prems" sk nb \<open>c = CHR ''{''\<close> sk2 ds cs show ?thesis by auto
      next
        case False
        with "2.prems" sk nb \<open>c = CHR ''{''\<close> sk2 obtain ws where
          "parse_members n [] (d # ds) = Some (ws, r)" by auto
        with "2.IH"(2) [OF sk nb \<open>c = CHR ''{''\<close> sk2 False] have "length r < length (d # ds)" by blast
        with ds cs show ?thesis by simp
      qed
    next
      case no: False
      from "2.prems" sk nb no have "length r \<le> length cs"
        by (auto split: if_splits dest!: parse_chars_shorter strip_prefix_length parse_number_shorter)
      with cs show ?thesis by simp
    qed
  qed
next
  case (3 s)
  then show ?case by simp
next
  case (4 n s)
  from "4.prems" obtain v r1 where pv: "parse_value n s = Some (v, r1)"
    by (cases "parse_value n s") auto
  then have r1: "length r1 < length s" by (rule "4.IH"(1))
  from "4.prems" pv obtain c cs where sk: "skip_ws r1 = c # cs"
    by (cases "skip_ws r1") auto
  then have cs: "length cs < length r1" by (rule skip_ws_Cons_length)
  show ?case
  proof (cases "c = CHR '',''")
    case True
    with "4.prems" pv sk obtain ws where pe: "parse_elements n cs = Some (ws, r)" by auto
    have "length r < length cs"
      using "4.IH"(2) [OF pv refl sk True pe] .
    with cs r1 show ?thesis by simp
  next
    case False
    with "4.prems" pv sk have "r = cs" by (auto split: if_splits)
    with cs r1 show ?thesis by simp
  qed
next
  case (5 acc s)
  then show ?case by simp
next
  case (6 n acc s)
  from "6.prems" obtain c cs where sk: "skip_ws s = c # cs"
    by (cases "skip_ws s") auto
  then have cs: "length cs < length s" by (rule skip_ws_Cons_length)
  from "6.prems" sk have c: "\<not> c \<noteq> dq" by (auto split: if_splits)
  from "6.prems" sk c obtain k r1 where pc: "parse_chars cs = Some (k, r1)"
    by (cases "parse_chars cs") auto
  then have r1: "length r1 < length cs" by (rule parse_chars_shorter)
  from "6.prems" sk c pc obtain c1 r2 where sk1: "skip_ws r1 = c1 # r2"
    by (cases "skip_ws r1") auto
  then have r2: "length r2 < length r1" by (rule skip_ws_Cons_length)
  from "6.prems" sk c pc sk1 have c1: "\<not> c1 \<noteq> CHR '':''" by (auto split: if_splits)
  from "6.prems" sk c pc sk1 c1 obtain v r3 where pv: "parse_value n r2 = Some (v, r3)"
    by (cases "parse_value n r2") auto
  have r3: "length r3 < length r2"
    using "6.IH"(1) [OF sk c pc refl sk1 c1 pv] .
  from "6.prems" sk c pc sk1 c1 pv obtain c2 r4 where sk2: "skip_ws r3 = c2 # r4"
    by (cases "skip_ws r3") auto
  then have r4: "length r4 < length r3" by (rule skip_ws_Cons_length)
  show ?case
  proof (cases "c2 = CHR '',''")
    case True
    with "6.prems" sk c pc sk1 c1 pv sk2 have pm: "parse_members n (obj_define acc k v) r4 = Some (kvs, r)"
      by auto
    have "length r < length r4"
      using "6.IH"(2) [OF sk c pc refl sk1 c1 pv refl sk2 True pm] .
    with r4 r3 r2 r1 cs show ?thesis by simp
  next
    case False
    with "6.prems" sk c pc sk1 c1 pv sk2 have "r = r4" by (auto split: if_splits)
    with r4 r3 r2 r1 cs show ?thesis by simp
  qed
qed

lemma parse_fuel_step_all:
  "(\<forall>s. 2 * length s + 2 \<le> n \<longrightarrow> parse_value (Suc n) s = parse_value n s)
   \<and> (\<forall>t. 2 * length t + 3 \<le> n \<longrightarrow> parse_elements (Suc n) t = parse_elements n t)
   \<and> (\<forall>u acc. 2 * length u + 3 \<le> n \<longrightarrow> parse_members (Suc n) acc u = parse_members n acc u)"
proof (induction n)
  case 0
  show ?case by simp
next
  case (Suc m)
  then have IH1: "\<And>s. 2 * length s + 2 \<le> m \<Longrightarrow> parse_value (Suc m) s = parse_value m s"
    and IH2: "\<And>t. 2 * length t + 3 \<le> m \<Longrightarrow> parse_elements (Suc m) t = parse_elements m t"
    and IH3: "\<And>u acc. 2 * length u + 3 \<le> m \<Longrightarrow>
        parse_members (Suc m) acc u = parse_members m acc u"
    by blast+
  show ?case
  proof (intro conjI allI impI)
    fix s :: string
    assume 1: "2 * length s + 2 \<le> Suc m"
    show "parse_value (Suc (Suc m)) s = parse_value (Suc m) s"
    proof (cases "skip_ws s")
      case Nil
      then show ?thesis by simp
    next
      case (Cons c cs)
      then have cs: "length cs < length s" by (rule skip_ws_Cons_length)
      show ?thesis
      proof (cases "skip_ws cs")
        case Nil
        with Cons show ?thesis by simp
      next
        case inner: (Cons d ds)
        then have "length ds < length cs" by (rule skip_ws_Cons_length)
        with cs 1 have b: "2 * length (d # ds) + 3 \<le> m" by simp
        from b have e: "parse_elements (Suc m) (d # ds) = parse_elements m (d # ds)"
          by (rule IH2)
        from b have f: "parse_members (Suc m) [] (d # ds) = parse_members m [] (d # ds)"
          by (rule IH3)
        from Cons inner e f show ?thesis
          by (auto simp del: parse_elements.simps parse_members.simps)
      qed
    qed
  next
    fix t :: string
    assume 2: "2 * length t + 3 \<le> Suc m"
    then have "2 * length t + 2 \<le> m" by simp
    then have v: "parse_value (Suc m) t = parse_value m t" by (rule IH1)
    show "parse_elements (Suc (Suc m)) t = parse_elements (Suc m) t"
    proof (cases "parse_value m t")
      case None
      with v show ?thesis by (simp del: parse_value.simps)
    next
      case (Some p)
      obtain x r1 where p: "p = (x, r1)" by (cases p)
      with Some have r1: "length r1 < length t" by (auto dest: parse_shorter(1))
      show ?thesis
      proof (cases "skip_ws r1")
        case Nil
        with v Some p show ?thesis by (simp del: parse_value.simps)
      next
        case (Cons c cs)
        then have "length cs < length r1" by (rule skip_ws_Cons_length)
        with r1 2 have "2 * length cs + 3 \<le> m" by simp
        then have "parse_elements (Suc m) cs = parse_elements m cs" by (rule IH2)
        with v Some p Cons show ?thesis
          by (simp add: parse_elements.simps(2) [of "Suc m" t] parse_elements.simps(2) [of m t]
              del: parse_value.simps parse_elements.simps)
      qed
    qed
  next
    fix u :: string and acc :: "(string \<times> jsval) list"
    assume 3: "2 * length u + 3 \<le> Suc m"
    show "parse_members (Suc (Suc m)) acc u = parse_members (Suc m) acc u"
    proof (cases "skip_ws u")
      case Nil
      then show ?thesis by simp
    next
      case (Cons c cs)
      then have cs: "length cs < length u" by (rule skip_ws_Cons_length)
      show ?thesis
      proof (cases "parse_chars cs")
        case None
        with Cons show ?thesis by simp
      next
        case (Some p)
        obtain k r1 where p: "p = (k, r1)" by (cases p)
        with Some have r1: "length r1 < length cs" by (auto dest: parse_chars_shorter)
        show ?thesis
        proof (cases "skip_ws r1")
          case Nil
          with Cons Some p show ?thesis by simp
        next
          case inner: (Cons c1 r2)
          then have r2: "length r2 < length r1" by (rule skip_ws_Cons_length)
          with r1 cs 3 have "2 * length r2 + 2 \<le> m" by simp
          then have v: "parse_value (Suc m) r2 = parse_value m r2" by (rule IH1)
          show ?thesis
          proof (cases "parse_value m r2")
            case None
            with Cons Some p inner v show ?thesis by (simp del: parse_value.simps)
          next
            case pv: (Some q)
            obtain x r3 where q: "q = (x, r3)" by (cases q)
            with pv have r3: "length r3 < length r2" by (auto dest: parse_shorter(1))
            show ?thesis
            proof (cases "skip_ws r3")
              case Nil
              with Cons Some p inner v pv q show ?thesis by (simp del: parse_value.simps)
            next
              case last: (Cons c2 r4)
              then have "length r4 < length r3" by (rule skip_ws_Cons_length)
              with r3 r2 r1 cs 3 have "2 * length r4 + 3 \<le> m" by simp
              then have "parse_members (Suc m) (obj_define acc k x) r4
                  = parse_members m (obj_define acc k x) r4"
                by (rule IH3)
              with Cons Some p inner v pv q last show ?thesis
                by (simp add: parse_members.simps(2) [of "Suc m" acc u] parse_members.simps(2) [of m acc u]
                    del: parse_value.simps parse_members.simps)
            qed
          qed
        qed
      qed
    qed
  qed
qed

lemma parse_fuel_step:
  "2 * length s + 2 \<le> n \<Longrightarrow> parse_value (Suc n) s = parse_value n s"
  using parse_fuel_step_all [of n] by blast

lemma parse_fuel_enough:
  "2 * length s + 2 \<le> n \<Longrightarrow> parse_value n s = parse_value (2 * length s + 2) s"
proof (induction n)
  case 0
  then show ?case by simp
next
  case (Suc n)
  show ?case
  proof (cases "2 * length s + 2 \<le> n")
    case True
    with Suc.IH parse_fuel_step [OF True] show ?thesis by simp
  next
    case False
    with Suc.prems have "Suc n = 2 * length s + 2" by simp
    then show ?thesis by simp
  qed
qed

lemma JSON_parse_any_bound:
  "2 * length s + 2 \<le> n \<Longrightarrow>
   JSON_parse s =
     (case parse_value n s of
        None \<Rightarrow> None
      | Some (v, r) \<Rightarrow> (if skip_ws r = [] then Some v else None))"
  by (simp add: JSON_parse_def parse_fuel_enough [of s n])

section \<open>Properties of the model\<close>

subsection \<open>A typed document and its run-time value\<close>

lemma sequence_map_inverse:
  "(\<And>x. x \<in> set xs \<Longrightarrow> f (g x) = Some x) \<Longrightarrow> sequence (map (f \<circ> g) xs) = Some xs"
  by (induction xs) simp_all

lemma as_item_json: "as_item (item_json f) = Some f"
  by (cases "item_value f") (simp_all add: as_item_def item_json_def object_literal_def List.map_filter_simps)

lemma as_row_json: "as_row (row_json row) = Some row"
  using sequence_map_inverse [of row as_item item_json]
  by (simp add: as_row_def row_json_def as_item_json)

lemma as_instance_json: "as_instance (instance_json a) = Some a"
  using sequence_map_inverse [of "children a" as_row row_json]
  by (simp add: as_instance_def instance_json_def as_row_json)

lemma as_group_json: "as_group (group_json g) = Some g"
  using sequence_map_inverse [of "attributes g" as_instance instance_json]
  by (simp add: as_group_def group_json_def as_instance_json)

lemma as_groups_json: "as_groups (map group_json gs) = Some gs"
  using sequence_map_inverse [of gs as_group group_json]
  by (simp add: as_groups_def as_group_json)

lemma groups_json_inject: "groups_json gs = groups_json hs \<Longrightarrow> gs = hs"
proof -
  assume "groups_json gs = groups_json hs"
  then have "as_groups (map group_json gs) = as_groups (map group_json hs)"
    by (simp add: groups_json_def)
  then show "gs = hs" by (simp add: as_groups_json)
qed

lemma jsval_ok_item_json: "jsval_ok (item_json f) = item_ok f"
  by (cases "item_value f") (simp_all add: item_json_def object_literal_def List.map_filter_simps item_ok_def)

lemma jsval_ok_row_json: "jsval_ok (row_json row) = row_ok row"
  by (simp add: row_json_def row_ok_def row_fields_def jsval_ok_item_json)

lemma jsval_ok_instance_json: "jsval_ok (instance_json a) = attr_fields item_ok a"
  by (simp add: instance_json_def jsval_ok_row_json attr_fields_def row_ok_def)

lemma jsval_ok_group_json: "jsval_ok (group_json g) = group_fields item_ok g"
  by (simp add: group_json_def jsval_ok_instance_json group_fields_def)

lemma jsval_ok_groups_json: "jsval_ok (groups_json gs) = document_ok gs"
  by (simp add: groups_json_def document_ok_def all_fields_def jsval_ok_group_json)

lemma json_clone_row: "row_ok row \<Longrightarrow> json_clone_row row = Some row"
  by (simp add: json_clone_row_def JSON_roundtrip jsval_ok_row_json as_row_json)

lemma serialize_inject:
  assumes "document_ok gs" "document_ok hs"
    and "JSON_stringify (groups_json gs) = JSON_stringify (groups_json hs)"
  shows "gs = hs"
proof -
  have g: "JSON_parse (JSON_stringify (groups_json gs)) = Some (groups_json gs)"
    using assms(1) by (simp add: JSON_roundtrip jsval_ok_groups_json)
  have h: "JSON_parse (JSON_stringify (groups_json hs)) = Some (groups_json hs)"
    using assms(2) by (simp add: JSON_roundtrip jsval_ok_groups_json)
  from assms(3) have "JSON_parse (JSON_stringify (groups_json gs))
      = JSON_parse (JSON_stringify (groups_json hs))"
    by (rule arg_cong)
  with g h have "groups_json gs = groups_json hs" by (metis option.inject)
  then show ?thesis by (rule groups_json_inject)
qed

subsection \<open>Saving\<close>

lemma resume_failure: "\<not> save_succeeds outcome \<Longrightarrow>
  \<exists>msg. saveAttributeMeta_resume req outcome st = (st, [Toast_error msg])"
  by (auto simp: saveAttributeMeta_resume_def save_succeeds_def split: call_result.splits option.splits jsval.splits)

lemma resume_failure_fst:
  "\<not> save_succeeds outcome \<Longrightarrow> fst (saveAttributeMeta_resume req outcome st) = st"
  using resume_failure [of outcome req st] by auto

lemma resume_success: "save_succeeds outcome \<Longrightarrow>
  saveAttributeMeta_resume req outcome st =
    (st\<lparr>savedGroupData := captured req\<rparr>, [Toast_success ''Order attributes updated successfully''])"
  by (auto simp: saveAttributeMeta_resume_def save_succeeds_def split: call_result.splits option.splits jsval.splits)

lemma request_dirty:
  "hasChanges (groupSelected st) (savedGroupData st) \<Longrightarrow> \<not> falsy data_id \<Longrightarrow>
   saveAttributeMeta_request data_id st =
     (Some \<lparr>orderId = the data_id, orderData = JSON_stringify (groups_json (groupSelected st)),
            captured = groupSelected st\<rparr>, [])"
  by (simp add: saveAttributeMeta_request_def)

lemma hasChanges_a_empty: "hasChanges [group_a] []"
  using serialize_inject [of "[group_a]" "[]"]
  by (auto simp: hasChanges_def Let_def document_ok_def all_fields_def group_fields_def)

lemma hasChanges_ab_a: "hasChanges [group_a, group_b] [group_a]"
  using serialize_inject [of "[group_a, group_b]" "[group_a]"]
  by (auto simp: hasChanges_def Let_def document_ok_def all_fields_def group_fields_def)

subsection \<open>The active group\<close>

text \<open>
  The second effect reaches its fixed point in one run. Deleting the active group
  leaves no active group when it was the only group, and activates the first group
  when the deleted group was not the first. When the deleted group is the first and
  another group remains, the active id is left at the id of the deleted group
  (\<open>delete_first_active_group\<close>).
\<close>

lemma effect2_idem: "effect2 (effect2 st) = effect2 st"
  by (cases "groupSelected st") (auto simp: effect2_def falsy_def split: option.splits)

lemma remove_first_find:
  "find p xs = Some x \<Longrightarrow> remove_first p xs = [] \<Longrightarrow> xs = [x]"
  by (induction xs) (auto split: if_splits)

lemma delete_group_general:
  assumes "activeGroup st = Some g" "\<not> falsy (activeGroupId st)"
  shows "remove_first (\<lambda>x. group_id x = group_id g) (groupSelected st) = [] \<Longrightarrow>
           activeGroup (effect2 (handleDeleteGroup (group_id g) True st)) = None"
    and "group_id (hd (groupSelected st)) \<noteq> group_id g \<Longrightarrow>
           activeGroup (effect2 (handleDeleteGroup (group_id g) True st)) = Some (hd (groupSelected st))
           \<and> hd (groupSelected (effect2 (handleDeleteGroup (group_id g) True st))) = hd (groupSelected st)"
proof -
  from assms obtain gid where gid: "activeGroupId st = Some gid" "gid \<noteq> []"
    and f: "find (\<lambda>x. group_id x = gid) (groupSelected st) = Some g"
    by (auto simp: activeGroup_def falsy_def split: option.splits)
  then obtain x xs where xs: "groupSelected st = x # xs" by (cases "groupSelected st") auto
  {
    assume "remove_first (\<lambda>x. group_id x = group_id g) (groupSelected st) = []"
    then show "activeGroup (effect2 (handleDeleteGroup (group_id g) True st)) = None"
      using xs by (auto simp: handleDeleteGroup_def effect2_def Let_def activeGroup_def falsy_def)
  }
  {
    assume "group_id (hd (groupSelected st)) \<noteq> group_id g"
    then show "activeGroup (effect2 (handleDeleteGroup (group_id g) True st)) = Some (hd (groupSelected st))
           \<and> hd (groupSelected (effect2 (handleDeleteGroup (group_id g) True st))) = hd (groupSelected st)"
      using xs by (auto simp: handleDeleteGroup_def effect2_def Let_def activeGroup_def falsy_def)
  }
qed

lemma delete_first_active_group:
  assumes "groupSelected st = g # g' # gs" "activeGroupId st = Some (group_id g)" "group_id g \<noteq> []"
    and "\<forall>x\<in>set (g' # gs). group_id x \<noteq> group_id g"
  shows "groupSelected (effect2 (handleDeleteGroup (group_id g) True st)) = g' # gs"
    and "activeGroupId (effect2 (handleDeleteGroup (group_id g) True st)) = Some (group_id g)"
    and "activeGroup (effect2 (handleDeleteGroup (group_id g) True st)) = None"
proof -
  have h: "handleDeleteGroup (group_id g) True st
      = st\<lparr>groupSelected := g' # gs, activeGroupId := Some (group_id g)\<rparr>"
    using assms(1) by (simp add: handleDeleteGroup_def Let_def)
  then have e: "effect2 (handleDeleteGroup (group_id g) True st)
      = st\<lparr>groupSelected := g' # gs, activeGroupId := Some (group_id g)\<rparr>"
    using assms(3) by (simp add: effect2_def falsy_def)
  show "groupSelected (effect2 (handleDeleteGroup (group_id g) True st)) = g' # gs"
    and "activeGroupId (effect2 (handleDeleteGroup (group_id g) True st)) = Some (group_id g)"
    by (simp_all add: e)
  have "find (\<lambda>x. group_id x = group_id g) (g' # gs) = None"
    using assms(4) by (simp add: find_None_iff)
  then show "activeGroup (effect2 (handleDeleteGroup (group_id g) True st)) = None"
    by (simp add: e activeGroup_def)
qed

subsection \<open>Loading\<close>


lemma stringify_nonempty: "JSON_stringify v \<noteq> []"
  using stringify_start [of v] by auto

lemma parseData_current_shape:
  assumes "jsval_ok (JArr vs)" "vs = [] \<or> js_prop (hd vs) ''attributes'' \<noteq> None"
  shows "parseData (Some (JSON_stringify (JArr vs))) newId = (vs, [])"
proof -
  have "JSON_parse (JSON_stringify (JArr vs)) = Some (JArr vs)"
    using assms(1) by (rule JSON_roundtrip)
  moreover have "JSON_stringify (JArr vs) \<noteq> []" by (rule stringify_nonempty)
  ultimately show ?thesis using assms(2)
    by (cases vs) (simp_all add: parseData_def falsy_def del: JSON_stringify.simps)
qed

lemma group_json_has_attributes: "js_prop (group_json g) ''attributes'' \<noteq> None"
  by (simp add: group_json_def)

subsection \<open>Finding what was updated\<close>

lemma find_update_first:
  "(\<And>x. p (f x) = p x) \<Longrightarrow> find p (update_first p f xs) = map_option f (find p xs)"
  by (induction xs) simp_all

lemma update_first_absent: "find p xs = None \<Longrightarrow> update_first p f xs = xs"
  by (induction xs) (auto split: if_splits)

lemma find_attribute_update:
  assumes "\<And>a. attr_id (f a) = attr_id a"
  shows "find_attribute gid aid (update_attribute gid aid f gs) = map_option f (find_attribute gid aid gs)"
proof -
  have "find (\<lambda>g. group_id g = gid) (update_attribute gid aid f gs)
      = map_option (\<lambda>grp. grp\<lparr>attributes := update_first (\<lambda>attr. attr_id attr = aid) f (attributes grp)\<rparr>)
          (find (\<lambda>g. group_id g = gid) gs)"
    unfolding update_attribute_def update_group_def by (rule find_update_first) simp
  then show ?thesis
    using assms
    by (cases "find (\<lambda>g. group_id g = gid) gs") (simp_all add: find_attribute_def find_update_first)
qed

lemma attr_id_update_field: "attr_id (update_field ri fi f a) = attr_id a"
  by (simp add: update_field_def)

lemma find_field_update:
  "find_field gid aid ri fi (update_attribute gid aid (update_field ri fi f) gs)
     = map_option f (find_field gid aid ri fi gs)"
proof -
  have "find_attribute gid aid (update_attribute gid aid (update_field ri fi f) gs)
      = map_option (update_field ri fi f) (find_attribute gid aid gs)"
    by (rule find_attribute_update) (rule attr_id_update_field)
  then show ?thesis
    by (cases "find_attribute gid aid gs")
       (auto simp: find_field_def update_field_def has_field_def)
qed

lemma checkbox_array_not_array:
  "(case item_value field of Some v \<Rightarrow> \<not> isArray v | None \<Rightarrow> True) \<Longrightarrow> checkbox_array field = []"
  by (auto simp: checkbox_array_def split: option.splits jsval.splits)

subsection \<open>Adding an attribute to the active group\<close>

lemma set_update_first:
  "find p xs = Some x \<Longrightarrow> set (update_first p f xs) \<subseteq> insert (f x) (set xs)"
  by (induction xs) (auto split: if_splits)

lemma activeGroup_find:
  "\<not> falsy (activeGroupId st) \<Longrightarrow>
   activeGroup st = find (\<lambda>g. group_id g = the (activeGroupId st)) (groupSelected st)"
  by (auto simp: activeGroup_def falsy_def split: option.splits)

lemma select_attribute_unique:
  assumes "instance_ids_unique (groupSelected st)"
  shows "instance_ids_unique (groupSelected (fst (handleSelectAttributeForGroup d st)))"
proof (cases "falsy (activeGroupId st)")
  case True
  with assms show ?thesis by (simp add: handleSelectAttributeForGroup_def)
next
  case False
  show ?thesis
  proof (cases "find (\<lambda>g. group_id g = the (activeGroupId st)) (groupSelected st)")
    case None
    with False assms show ?thesis by (simp add: handleSelectAttributeForGroup_def Let_def)
  next
    case (Some grp)
    show ?thesis
    proof (cases "\<exists>attr\<in>set (attributes grp). attr_id attr = tmpl_id d")
      case True
      with False Some assms show ?thesis by (simp add: handleSelectAttributeForGroup_def Let_def)
    next
      case fresh: False
      let ?new = "\<lparr>attr_id = tmpl_id d, attr_title = tmpl_title d, children = []\<rparr>"
      let ?f = "\<lambda>g. g\<lparr>attributes := attributes g @ [?new]\<rparr>"
      have g: "groupSelected (fst (handleSelectAttributeForGroup d st))
          = update_first (\<lambda>g. group_id g = the (activeGroupId st)) ?f (groupSelected st)"
        using False Some fresh by (simp add: handleSelectAttributeForGroup_def Let_def update_group_def)
      from Some have "grp \<in> set (groupSelected st)"
        by (auto simp: find_Some_iff)
      with assms have "distinct (map attr_id (attributes grp))"
        by (simp add: instance_ids_unique_def)
      with fresh have "distinct (map attr_id (attributes (?f grp)))" by auto
      moreover have "set (update_first (\<lambda>g. group_id g = the (activeGroupId st)) ?f (groupSelected st))
          \<subseteq> insert (?f grp) (set (groupSelected st))"
        using Some by (rule set_update_first)
      ultimately show ?thesis using assms
        unfolding instance_ids_unique_def g by blast
    qed
  qed
qed

subsection \<open>The rows of an attribute\<close>


lemma rows_of_find:
  "rows_of st aid = Some rows \<Longrightarrow>
   \<not> falsy (activeGroupId st)
   \<and> (\<exists>a. find_attribute (the (activeGroupId st)) aid (groupSelected st) = Some a \<and> children a = rows)"
  by (auto simp: rows_of_def split: if_splits)



lemma find_field_rows:
  assumes "rows_of st aid = Some rows"
  shows "find_field (the (activeGroupId st)) aid j fi (groupSelected st)
      = (if j < length rows \<and> fi < length (rows ! j) then Some (rows ! j ! fi) else None)"
  using rows_of_find [OF assms] by (auto simp: find_field_def has_field_def)






subsection \<open>Properties of all fields that the handlers keep\<close>

lemma ball_update_first:
  "\<forall>x\<in>set xs. Q x \<Longrightarrow> (\<And>x. Q x \<Longrightarrow> Q (f x)) \<Longrightarrow> \<forall>x\<in>set (update_first p f xs). Q x"
  by (induction xs) auto

lemma set_remove_first: "set (remove_first p xs) \<subseteq> set xs"
  by (induction xs) auto

lemma all_fields_update_group:
  "all_fields P gs \<Longrightarrow> (\<And>g. group_fields P g \<Longrightarrow> group_fields P (f g)) \<Longrightarrow>
   all_fields P (update_group gid f gs)"
  unfolding all_fields_def update_group_def by (rule ball_update_first)

lemma all_fields_update_attribute:
  assumes "all_fields P gs" "\<And>a. attr_fields P a \<Longrightarrow> attr_fields P (f a)"
  shows "all_fields P (update_attribute gid aid f gs)"
  unfolding update_attribute_def
proof (rule all_fields_update_group [OF assms(1)])
  fix g assume "group_fields P g"
  then have "\<forall>a\<in>set (attributes g). attr_fields P a" by (simp add: group_fields_def)
  then have "\<forall>a\<in>set (update_first (\<lambda>attr. attr_id attr = aid) f (attributes g)). attr_fields P a"
    using assms(2) by (rule ball_update_first)
  then show "group_fields P (g\<lparr>attributes := update_first (\<lambda>attr. attr_id attr = aid) f (attributes g)\<rparr>)"
    by (simp add: group_fields_def)
qed

lemma attr_fields_update_field:
  assumes "attr_fields P a" "\<And>x. P x \<Longrightarrow> P (f x)"
  shows "attr_fields P (update_field ri fi f a)"
proof (cases "has_field a ri fi")
  case False
  with assms(1) show ?thesis by (simp add: update_field_def)
next
  case True
  then have ri: "ri < length (children a)" and fi: "fi < length (children a ! ri)"
    by (simp_all add: has_field_def)
  from assms(1) ri have row: "row_fields P (children a ! ri)"
    by (simp add: attr_fields_def)
  with fi have "P (children a ! ri ! fi)" by (simp add: row_fields_def)
  then have "P (f (children a ! ri ! fi))" by (rule assms(2))
  with row have "row_fields P ((children a ! ri)[fi := f (children a ! ri ! fi)])"
    unfolding row_fields_def using set_update_subset_insert [of "children a ! ri" fi] by blast
  with assms(1) have "\<forall>row\<in>set ((children a)[ri := (children a ! ri)[fi := f (children a ! ri ! fi)]]).
      row_fields P row"
    unfolding attr_fields_def using set_update_subset_insert [of "children a" ri] by blast
  with True show ?thesis by (simp add: update_field_def attr_fields_def)
qed

lemma attr_fields_push:
  "attr_fields P a \<Longrightarrow> row_fields P row \<Longrightarrow> attr_fields P (a\<lparr>children := children a @ [row]\<rparr>)"
  by (simp add: attr_fields_def)

lemma attr_fields_splice_insert:
  "attr_fields P a \<Longrightarrow> row_fields P row \<Longrightarrow>
   attr_fields P (a\<lparr>children := splice_insert i row (children a)\<rparr>)"
  by (auto simp: attr_fields_def splice_insert_def dest: in_set_takeD in_set_dropD)

lemma attr_fields_splice_delete:
  "attr_fields P a \<Longrightarrow> attr_fields P (a\<lparr>children := splice_delete i (children a)\<rparr>)"
  by (auto simp: attr_fields_def splice_delete_def dest: in_set_takeD in_set_dropD)

lemma find_attribute_fields:
  assumes "find_attribute gid aid gs = Some a" "all_fields P gs"
  shows "attr_fields P a"
proof -
  from assms(1) obtain g where g: "find (\<lambda>g. group_id g = gid) gs = Some g"
    and a: "find (\<lambda>attr. attr_id attr = aid) (attributes g) = Some a"
    by (auto simp: find_attribute_def split: option.splits)
  from g have "g \<in> set gs" by (auto simp: find_Some_iff)
  moreover from a have "a \<in> set (attributes g)" by (auto simp: find_Some_iff)
  ultimately show ?thesis using assms(2) by (simp add: all_fields_def group_fields_def)
qed

text \<open>Each handler keeps a property of all fields that its new values have.\<close>

lemma all_fields_handleAddGroup:
  "all_fields P (groupSelected st) \<Longrightarrow> all_fields P (groupSelected (fst (handleAddGroup newId name st)))"
  by (simp add: handleAddGroup_def Let_def all_fields_def group_fields_def)

lemma all_fields_renameGroup:
  "all_fields P (groupSelected st) \<Longrightarrow> all_fields P (groupSelected (renameGroup gid name st))"
  by (auto simp: renameGroup_def group_fields_def intro!: all_fields_update_group)

lemma all_fields_handleDeleteGroup:
  "all_fields P (groupSelected st) \<Longrightarrow> all_fields P (groupSelected (handleDeleteGroup gid confirm st))"
  using set_remove_first [of "\<lambda>g. group_id g = gid" "groupSelected st"]
  by (auto simp: handleDeleteGroup_def Let_def all_fields_def)

lemma all_fields_handleSelectAttributeForGroup:
  "all_fields P (groupSelected st) \<Longrightarrow>
   all_fields P (groupSelected (fst (handleSelectAttributeForGroup d st)))"
  by (auto simp: handleSelectAttributeForGroup_def Let_def group_fields_def
      attr_fields_def split: option.splits intro!: all_fields_update_group)

lemma all_fields_handleAddAttributeRow:
  assumes "all_fields P (groupSelected st)" "\<And>defs. row_fields P (newRow defs)"
  shows "all_fields P (groupSelected (fst (handleAddAttributeRow templates aid st)))"
  using assms
  by (auto simp: handleAddAttributeRow_def split: option.splits
      intro!: all_fields_update_attribute attr_fields_push)

lemma all_fields_handleDuplicateAttributeRow:
  assumes "all_fields P (groupSelected st)" "document_ok (groupSelected st)"
  shows "\<exists>st'. handleDuplicateAttributeRow aid i st = Some st' \<and> all_fields P (groupSelected st')"
proof (cases "falsy (activeGroupId st)")
  case True
  with assms(1) show ?thesis by (simp add: handleDuplicateAttributeRow_def)
next
  case False
  show ?thesis
  proof (cases "find_attribute (the (activeGroupId st)) aid (groupSelected st)")
    case None
    with False assms(1) show ?thesis by (simp add: handleDuplicateAttributeRow_def)
  next
    case (Some a)
    show ?thesis
    proof (cases "i < length (children a)")
      case out: False
      with False Some assms(1) show ?thesis by (simp add: handleDuplicateAttributeRow_def)
    next
      case True
      have "attr_fields item_ok a" using Some assms(2) unfolding document_ok_def
        by (rule find_attribute_fields)
      with True have ok: "row_ok (children a ! i)" by (simp add: attr_fields_def row_ok_def)
      have "attr_fields P a" using Some assms(1) by (rule find_attribute_fields)
      with True have row: "row_fields P (children a ! i)" by (simp add: attr_fields_def)
      have "all_fields P (update_attribute (the (activeGroupId st)) aid
              (\<lambda>a'. a'\<lparr>children := splice_insert (i + 1) (children a ! i) (children a')\<rparr>) (groupSelected st))"
        using assms(1) row by (intro all_fields_update_attribute attr_fields_splice_insert)
      with False Some True ok show ?thesis
        by (simp add: handleDuplicateAttributeRow_def json_clone_row)
    qed
  qed
qed

lemma all_fields_handleDeleteAttributeRow:
  "all_fields P (groupSelected st) \<Longrightarrow>
   all_fields P (groupSelected (handleDeleteAttributeRow aid i confirm st))"
  by (auto simp: handleDeleteAttributeRow_def intro!: all_fields_update_attribute attr_fields_splice_delete)

lemma all_fields_handleDeleteAttributeInstance:
  "all_fields P (groupSelected st) \<Longrightarrow>
   all_fields P (groupSelected (handleDeleteAttributeInstance aid confirm st))"
  by (auto simp: handleDeleteAttributeInstance_def group_fields_def intro!: all_fields_update_group)

lemma all_fields_handleUpdateFieldValue:
  assumes "all_fields P (groupSelected st)" "\<And>x. P x \<Longrightarrow> P (x\<lparr>item_value := Some v\<rparr>)"
  shows "all_fields P (groupSelected (handleUpdateFieldValue aid ri fi v st))"
  using assms
  by (auto simp: handleUpdateFieldValue_def intro!: all_fields_update_attribute attr_fields_update_field)

lemma all_fields_handleUpdateCheckboxValue:
  assumes "all_fields P (groupSelected st)" "\<And>x. P x \<Longrightarrow> P (checkbox_value item add x)"
  shows "all_fields P (groupSelected (fst (handleUpdateCheckboxValue aid ri fi item add st)))"
  using assms
  by (auto simp: handleUpdateCheckboxValue_def split: option.splits
      intro!: all_fields_update_attribute attr_fields_update_field)

lemma findIndex_None: "(findIndex p xs = None) = (\<forall>x\<in>set xs. \<not> p x)"
  by (induction xs) auto

lemma set_splice_delete: "set (splice_delete i xs) \<subseteq> set xs"
  by (auto simp: splice_delete_def dest: in_set_takeD in_set_dropD)

lemma splice_delete_Cons:
  "splice_delete 0 (x # xs) = xs" "splice_delete (Suc i) (x # xs) = x # splice_delete i xs"
  by (simp_all add: splice_delete_def)

lemma distinct_splice_delete: "distinct (map f xs) \<Longrightarrow> distinct (map f (splice_delete i xs))"
proof (induction xs arbitrary: i)
  case Nil
  then show ?case by (simp add: splice_delete_def)
next
  case (Cons x xs)
  show ?case
  proof (cases i)
    case 0
    with Cons.prems show ?thesis by (simp add: splice_delete_Cons)
  next
    case (Suc j)
    from Cons.prems have "f x \<notin> f ` set (splice_delete j xs)"
      using set_splice_delete [of j xs] by auto
    with Cons Suc show ?thesis by (simp add: splice_delete_Cons)
  qed
qed

lemma distinct_checkbox_array:
  "unique_ids (item_value x) \<Longrightarrow> distinct (map (\<lambda>v. js_prop v ''id'') (checkbox_array x))"
  by (auto simp: unique_ids_def checkbox_array_def split: option.splits jsval.splits)

lemma unique_ids_checkbox_value:
  assumes "unique_ids (item_value x)"
  shows "unique_ids (item_value (checkbox_value item add x))"
proof -
  note d = distinct_checkbox_array [OF assms]
  show ?thesis
  proof (cases "existingIndex item (checkbox_array x)")
    case None
    then have "\<forall>v\<in>set (checkbox_array x). js_prop v ''id'' \<noteq> js_prop item ''id''"
      by (simp add: existingIndex_def findIndex_None)
    with d have "distinct (map (\<lambda>v. js_prop v ''id'') (checkbox_array x @ [item]))" by auto
    with None d show ?thesis by (simp add: checkbox_value_def unique_ids_def Let_def)
  next
    case (Some i)
    with d distinct_splice_delete [OF d, of i] show ?thesis
      by (simp add: checkbox_value_def unique_ids_def Let_def)
  qed
qed

lemma jsval_ok_checkbox_array: "item_ok x \<Longrightarrow> \<forall>v\<in>set (checkbox_array x). jsval_ok v"
  by (auto simp: item_ok_def checkbox_array_def split: option.splits jsval.splits)

lemma item_ok_checkbox_value:
  assumes "item_ok x" "jsval_ok item"
  shows "item_ok (checkbox_value item add x)"
  using jsval_ok_checkbox_array [OF assms(1)] assms(2) set_splice_delete [of _ "checkbox_array x"]
  by (auto simp: checkbox_value_def item_ok_def Let_def split: option.splits)

lemma js_prop_ok: "jsval_ok v \<Longrightarrow> js_prop v k = Some x \<Longrightarrow> jsval_ok x"
  by (cases v) (auto dest: map_of_SomeD)

lemma jsval_ok_selectedMetaItem: "jsval_ok item \<Longrightarrow> jsval_ok (selectedMetaItem item)"
  by (auto simp: selectedMetaItem_def object_literal_def List.map_filter_simps
      split: option.splits dest: js_prop_ok)

lemma unique_ids_selectedMetaItem: "unique_ids (Some (selectedMetaItem item))"
  by (simp add: selectedMetaItem_def object_literal_def unique_ids_def)

lemma newRow_unique: "row_fields (\<lambda>f. unique_ids (item_value f)) (newRow defs)"
  by (auto simp: row_fields_def newRow_def unique_ids_def)

lemma newRow_ok: "row_fields item_ok (newRow defs)"
  by (auto simp: row_fields_def newRow_def item_ok_def)

lemma groupSelected_effect2: "groupSelected (effect2 st) = groupSelected st"
  by (simp add: effect2_def split: list.splits)

lemma handle_keeps_invariants:
  assumes "checkbox_ids_unique (groupSelected st)" "document_ok (groupSelected st)" "operation_ok ev"
  shows "\<exists>st' toasts. handle ts ev st = Some (st', toasts)
     \<and> checkbox_ids_unique (groupSelected st') \<and> document_ok (groupSelected st')"
proof (cases ev)
  case (CreateGroup newId name)
  with assms show ?thesis
    unfolding checkbox_ids_unique_def document_ok_def
    using all_fields_handleAddGroup [of _ st newId name]
    by (cases "handleAddGroup newId name st") auto
next
  case (RenameGroup gid name)
  with assms show ?thesis
    unfolding checkbox_ids_unique_def document_ok_def
    by (simp add: all_fields_renameGroup)
next
  case (SelectTab gid)
  with assms show ?thesis by simp
next
  case (DeleteGroup gid confirm)
  with assms show ?thesis
    unfolding checkbox_ids_unique_def document_ok_def
    by (simp add: all_fields_handleDeleteGroup)
next
  case (SelectAttributeForGroup d)
  with assms show ?thesis
    unfolding checkbox_ids_unique_def document_ok_def
    using all_fields_handleSelectAttributeForGroup [of _ st d]
    by (cases "handleSelectAttributeForGroup d st") auto
next
  case (AddRow aid)
  with assms show ?thesis
    unfolding checkbox_ids_unique_def document_ok_def
    using all_fields_handleAddAttributeRow [of _ st "atts ts" aid] newRow_unique newRow_ok
    by (cases "handleAddAttributeRow (atts ts) aid st") auto
next
  case (DuplicateRow aid i)
  from assms(2) obtain st' where d: "handleDuplicateAttributeRow aid i st = Some st'"
    and ok: "document_ok (groupSelected st')"
    unfolding document_ok_def
    using all_fields_handleDuplicateAttributeRow [of item_ok st aid i]
    by (auto simp: document_ok_def)
  from assms(1,2) d have "checkbox_ids_unique (groupSelected st')"
    unfolding checkbox_ids_unique_def
    using all_fields_handleDuplicateAttributeRow [of "\<lambda>f. unique_ids (item_value f)" st aid i]
    by auto
  with DuplicateRow d ok show ?thesis by simp
next
  case (DeleteRow aid i confirm)
  with assms show ?thesis
    unfolding checkbox_ids_unique_def document_ok_def
    by (simp add: all_fields_handleDeleteAttributeRow)
next
  case (DeleteAttributeInstance aid confirm)
  with assms show ?thesis
    unfolding checkbox_ids_unique_def document_ok_def
    by (simp add: all_fields_handleDeleteAttributeInstance)
next
  case (SetFieldText aid ri fi s)
  with assms show ?thesis
    unfolding checkbox_ids_unique_def document_ok_def
    by (auto intro!: all_fields_handleUpdateFieldValue simp: unique_ids_def item_ok_def)
next
  case (SelectSearchResult aid ri fi fieldType item)
  with assms(3) have item: "jsval_ok item" by simp
  show ?thesis
  proof (cases "fieldType = ''checkbox''")
    case True
    with SelectSearchResult assms(1,2) item show ?thesis
      unfolding checkbox_ids_unique_def document_ok_def
      using all_fields_handleUpdateCheckboxValue [of _ st "selectedMetaItem item" True aid ri fi]
      by (cases "handleUpdateCheckboxValue aid ri fi (selectedMetaItem item) True st")
         (auto simp: search_onSelect_def unique_ids_checkbox_value item_ok_checkbox_value
            jsval_ok_selectedMetaItem)
  next
    case False
    with SelectSearchResult assms(1,2) item show ?thesis
      unfolding checkbox_ids_unique_def document_ok_def
      by (auto simp: search_onSelect_def unique_ids_selectedMetaItem item_ok_def jsval_ok_selectedMetaItem
            intro!: all_fields_handleUpdateFieldValue)
  qed
next
  case (RemoveCheckboxValue aid ri fi v confirm)
  with assms(3) have v: "jsval_ok v" by simp
  with RemoveCheckboxValue assms(1,2) show ?thesis
    unfolding checkbox_ids_unique_def document_ok_def
    using all_fields_handleUpdateCheckboxValue [of _ st v False aid ri fi]
    by (cases "handleUpdateCheckboxValue aid ri fi v False st")
       (auto simp: handleDeleteCheckboxSingleValue_def unique_ids_checkbox_value item_ok_checkbox_value)
qed

lemma update_first_same:
  "(\<And>x. find p xs = Some x \<Longrightarrow> f x = x) \<Longrightarrow> update_first p f xs = xs"
  by (induction xs) auto

lemma update_attribute_same:
  assumes "\<And>a. find_attribute gid aid gs = Some a \<Longrightarrow> f a = a"
  shows "update_attribute gid aid f gs = gs"
  unfolding update_attribute_def update_group_def
proof (rule update_first_same)
  fix g assume g: "find (\<lambda>g. group_id g = gid) gs = Some g"
  have "update_first (\<lambda>attr. attr_id attr = aid) f (attributes g) = attributes g"
  proof (rule update_first_same)
    fix a assume "find (\<lambda>attr. attr_id attr = aid) (attributes g) = Some a"
    with g have "find_attribute gid aid gs = Some a" by (simp add: find_attribute_def)
    then show "f a = a" by (rule assms)
  qed
  then show "g\<lparr>attributes := update_first (\<lambda>attr. attr_id attr = aid) f (attributes g)\<rparr> = g"
    by simp
qed

lemma checkbox_add_present:
  assumes "rows_of st aid = Some rows" "ri < length rows" "fi < length (rows ! ri)"
    and "item_value (rows ! ri ! fi) = Some (JArr vs)" "existingIndex item vs \<noteq> None"
  shows "handleUpdateCheckboxValue aid ri fi item True st = (st, [Toast_error ''Already selected.''])"
proof -
  from assms(1) obtain a where a: "\<not> falsy (activeGroupId st)"
    "find_attribute (the (activeGroupId st)) aid (groupSelected st) = Some a" "children a = rows"
    using rows_of_find by blast
  have arr: "checkbox_array (rows ! ri ! fi) = vs" using assms(4) by (simp add: checkbox_array_def)
  from assms(5) obtain i where i: "existingIndex item vs = Some i" by auto
  have v: "checkbox_value item True (rows ! ri ! fi) = rows ! ri ! fi"
    using arr i assms(4) by (simp add: checkbox_value_def Let_def)
  have t: "checkbox_toast item True (rows ! ri ! fi) = [Toast_error ''Already selected.'']"
    using arr i by (simp add: checkbox_toast_def)
  have "update_field ri fi (checkbox_value item True) a = a"
    using a(3) v by (simp add: update_field_def)
  then have "update_attribute (the (activeGroupId st)) aid (update_field ri fi (checkbox_value item True))
      (groupSelected st) = groupSelected st"
    using a(2) by (intro update_attribute_same) simp
  moreover have "find_field (the (activeGroupId st)) aid ri fi (groupSelected st) = Some (rows ! ri ! fi)"
    using find_field_rows [OF assms(1), of ri fi] assms(2,3) by simp
  ultimately show ?thesis using a(1) t by (simp add: handleUpdateCheckboxValue_def)
qed

lemma apply_operations_keep_invariants:
  "checkbox_ids_unique (groupSelected st) \<Longrightarrow> document_ok (groupSelected st) \<Longrightarrow>
   \<forall>ev\<in>set evs. operation_ok ev \<Longrightarrow>
   \<exists>st'. apply_operations ts evs st = Some st'
     \<and> checkbox_ids_unique (groupSelected st') \<and> document_ok (groupSelected st')"
proof (induction evs arbitrary: st)
  case Nil
  then show ?case by simp
next
  case (Cons ev evs)
  then obtain st1 toasts where h: "handle ts ev st = Some (st1, toasts)"
    and i: "checkbox_ids_unique (groupSelected st1)" "document_ok (groupSelected st1)"
    using handle_keeps_invariants [of st ev ts] by auto
  then have a: "apply_operation ts ev st = Some (effect2 st1, toasts)"
    by (simp add: apply_operation_def)
  from i have "checkbox_ids_unique (groupSelected (effect2 st1))" "document_ok (groupSelected (effect2 st1))"
    by (simp_all add: groupSelected_effect2)
  with Cons.IH [of "effect2 st1"] Cons.prems(3) a show ?case by simp
qed

subsection \<open>The ids of the attribute instances\<close>

lemma map_update_first_same:
  "(\<And>x. k (f x) = k x) \<Longrightarrow> map k (update_first p f xs) = map k xs"
  by (induction xs) auto

lemma instance_ids_update_group:
  "instance_ids_unique gs \<Longrightarrow>
   (\<And>g. distinct (map attr_id (attributes g)) \<Longrightarrow> distinct (map attr_id (attributes (f g)))) \<Longrightarrow>
   instance_ids_unique (update_group gid f gs)"
  unfolding instance_ids_unique_def update_group_def by (rule ball_update_first)

lemma instance_ids_update_attribute:
  assumes "instance_ids_unique gs" "\<And>a. attr_id (f a) = attr_id a"
  shows "instance_ids_unique (update_attribute gid aid f gs)"
  unfolding update_attribute_def
  using assms(1)
proof (rule instance_ids_update_group)
  fix g assume "distinct (map attr_id (attributes g))"
  moreover have "map attr_id (update_first (\<lambda>attr. attr_id attr = aid) f (attributes g))
      = map attr_id (attributes g)"
    using assms(2) by (rule map_update_first_same)
  ultimately show "distinct (map attr_id (attributes
      (g\<lparr>attributes := update_first (\<lambda>attr. attr_id attr = aid) f (attributes g)\<rparr>)))"
    by simp
qed

lemma handle_keeps_instance_ids:
  assumes "instance_ids_unique (groupSelected st)" "handle ts ev st = Some (st', toasts)"
  shows "instance_ids_unique (groupSelected st')"
proof (cases ev)
  case (CreateGroup newId name)
  with assms show ?thesis
    by (auto simp: handleAddGroup_def Let_def instance_ids_unique_def split: if_splits)
next
  case (RenameGroup gid name)
  with assms show ?thesis
    by (auto simp: renameGroup_def intro!: instance_ids_update_group split: if_splits)
next
  case (SelectTab gid)
  with assms show ?thesis by auto
next
  case (DeleteGroup gid confirm)
  with assms show ?thesis
    using set_remove_first [of "\<lambda>g. group_id g = gid" "groupSelected st"]
    by (auto simp: handleDeleteGroup_def Let_def instance_ids_unique_def split: if_splits)
next
  case (SelectAttributeForGroup d)
  with assms select_attribute_unique [of st d] show ?thesis by auto
next
  case (AddRow aid)
  with assms show ?thesis
    by (auto simp: handleAddAttributeRow_def intro!: instance_ids_update_attribute
        split: if_splits option.splits)
next
  case (DuplicateRow aid i)
  with assms show ?thesis
    by (auto simp: handleDuplicateAttributeRow_def intro!: instance_ids_update_attribute
        split: if_splits option.splits)
next
  case (DeleteRow aid i confirm)
  with assms show ?thesis
    by (auto simp: handleDeleteAttributeRow_def intro!: instance_ids_update_attribute split: if_splits)
next
  case (DeleteAttributeInstance aid confirm)
  with assms show ?thesis
    by (auto simp: handleDeleteAttributeInstance_def distinct_map_filter
        intro!: instance_ids_update_group split: if_splits)
next
  case (SetFieldText aid ri fi s)
  with assms show ?thesis
    by (auto simp: handleUpdateFieldValue_def attr_id_update_field
        intro!: instance_ids_update_attribute split: if_splits)
next
  case (SelectSearchResult aid ri fi fieldType item)
  with assms show ?thesis
    by (auto simp: search_onSelect_def handleUpdateFieldValue_def handleUpdateCheckboxValue_def
        attr_id_update_field intro!: instance_ids_update_attribute split: if_splits option.splits)
next
  case (RemoveCheckboxValue aid ri fi v confirm)
  with assms show ?thesis
    by (auto simp: handleDeleteCheckboxSingleValue_def handleUpdateCheckboxValue_def
        attr_id_update_field intro!: instance_ids_update_attribute split: if_splits option.splits)
qed

lemma apply_operation_keeps_instance_ids:
  assumes "instance_ids_unique (groupSelected st)" "apply_operation ts ev st = Some (st', toasts)"
  shows "instance_ids_unique (groupSelected st')"
proof -
  from assms(2) obtain st1 where "handle ts ev st = Some (st1, toasts)" "st' = effect2 st1"
    by (auto simp: apply_operation_def)
  with assms(1) handle_keeps_instance_ids [of st ts ev st1 toasts] show ?thesis
    by (simp add: groupSelected_effect2)
qed

lemma apply_operations_keep_instance_ids:
  "instance_ids_unique (groupSelected st) \<Longrightarrow> apply_operations ts evs st = Some st' \<Longrightarrow>
   instance_ids_unique (groupSelected st')"
proof (induction evs arbitrary: st)
  case Nil
  then show ?case by simp
next
  case (Cons ev evs)
  then show ?case
    by (auto split: option.splits dest: apply_operation_keeps_instance_ids)
qed

section \<open>The claims of the specification\<close>

subsection \<open>C1: the dirty flag\<close>

text \<open>
  Claim C1. The document is dirty exactly when the JSON text of the current snapshot
  differs from the JSON text of the last-saved baseline: \<open>hasChanges D D\<close> is false
  for every document, and \<open>hasChanges D D'\<close> is true whenever the two texts differ.
  Moreover the text determines the document: two documents of JavaScript values that
  differ anywhere (a field value, a row, an instance, a group) have different texts.
\<close>

theorem dirty_iff_serializations_differ:
  "hasChanges D D' = (JSON_stringify (groups_json D) \<noteq> JSON_stringify (groups_json D'))
   \<and> \<not> hasChanges D D
   \<and> (document_ok D \<and> document_ok D' \<and> D \<noteq> D' \<longrightarrow> hasChanges D D')"
proof (intro conjI impI)
  show "hasChanges D D' = (JSON_stringify (groups_json D) \<noteq> JSON_stringify (groups_json D'))"
    by (simp add: hasChanges_def Let_def)
  show "\<not> hasChanges D D"
    by (simp add: hasChanges_def Let_def)
  assume "document_ok D \<and> document_ok D' \<and> D \<noteq> D'"
  then show "hasChanges D D'"
    unfolding hasChanges_def Let_def by (metis serialize_inject)
qed

theorem dirty_iff_serializations_differ_witness:
  "document_ok [\<lparr>group_id = ''g1'', group_title = ''Shipping'', attributes = []\<rparr>]
   \<and> document_ok []
   \<and> hasChanges [\<lparr>group_id = ''g1'', group_title = ''Shipping'', attributes = []\<rparr>] []"
  using dirty_iff_serializations_differ
    [of "[\<lparr>group_id = ''g1'', group_title = ''Shipping'', attributes = []\<rparr>]" "[]",
      THEN conjunct2, THEN conjunct2]
  by (simp add: document_ok_def all_fields_def group_fields_def)

subsection \<open>C2: a failed save\<close>

text \<open>
  Claim C2. When the save fails (the call rejects, or its response does not carry
  \<^verbatim>\<open>success: "success"\<close>), handling the failure changes nothing: the state after it
  is the state before it, so the baseline and the current snapshot with all its edits
  are as they were. For a dirty document with an order id the only effect is an error
  toast, the document is still dirty, and saving again sends the same request, the
  text of the same snapshot.
\<close>

theorem failed_save_changes_nothing:
  "(\<not> save_succeeds outcome \<longrightarrow>
      fst (saveAttributeMeta_resume req outcome st) = st
      \<and> fst (saveAttributeMeta data_id outcome st) = st)
   \<and> (hasChanges (groupSelected st) (savedGroupData st) \<and> \<not> falsy data_id \<and> \<not> save_succeeds outcome \<longrightarrow>
      (\<exists>msg. saveAttributeMeta data_id outcome st = (st, [Toast_error msg]))
      \<and> hasChanges (groupSelected (fst (saveAttributeMeta data_id outcome st)))
            (savedGroupData (fst (saveAttributeMeta data_id outcome st)))
      \<and> saveAttributeMeta_request data_id (fst (saveAttributeMeta data_id outcome st))
          = (Some \<lparr>orderId = the data_id, orderData = JSON_stringify (groups_json (groupSelected st)),
                   captured = groupSelected st\<rparr>, [])
      \<and> saveAttributeMeta_request data_id st
          = (Some \<lparr>orderId = the data_id, orderData = JSON_stringify (groups_json (groupSelected st)),
                   captured = groupSelected st\<rparr>, []))"
proof (intro conjI impI)
  assume f: "\<not> save_succeeds outcome"
  then show "fst (saveAttributeMeta_resume req outcome st) = st"
    using resume_failure [of outcome req st] by auto
  from f show "fst (saveAttributeMeta data_id outcome st) = st"
    by (simp add: saveAttributeMeta_def resume_failure_fst split: prod.splits option.splits)
next
  assume a: "hasChanges (groupSelected st) (savedGroupData st) \<and> \<not> falsy data_id \<and> \<not> save_succeeds outcome"
  then have r: "saveAttributeMeta_request data_id st =
     (Some \<lparr>orderId = the data_id, orderData = JSON_stringify (groups_json (groupSelected st)),
            captured = groupSelected st\<rparr>, [])"
    by (simp add: request_dirty)
  from a obtain msg where m: "saveAttributeMeta data_id outcome st = (st, [Toast_error msg])"
    using resume_failure [of outcome _ st] by (auto simp: saveAttributeMeta_def r)
  then show "\<exists>msg. saveAttributeMeta data_id outcome st = (st, [Toast_error msg])" by blast
  from m a show "hasChanges (groupSelected (fst (saveAttributeMeta data_id outcome st)))
            (savedGroupData (fst (saveAttributeMeta data_id outcome st)))" by simp
  from m r show "saveAttributeMeta_request data_id (fst (saveAttributeMeta data_id outcome st))
          = (Some \<lparr>orderId = the data_id, orderData = JSON_stringify (groups_json (groupSelected st)),
                   captured = groupSelected st\<rparr>, [])" by simp
  from r show "saveAttributeMeta_request data_id st
          = (Some \<lparr>orderId = the data_id, orderData = JSON_stringify (groups_json (groupSelected st)),
                   captured = groupSelected st\<rparr>, [])" .
qed

theorem failed_save_changes_nothing_witness:
  "hasChanges [group_a] [] \<and> \<not> falsy (Some ''o1'') \<and> \<not> save_succeeds Rejected \<and> \<not> save_succeeds response_failure
   \<and> saveAttributeMeta (Some ''o1'') Rejected
        \<lparr>groupSelected = [group_a], activeGroupId = Some ''a'', savedGroupData = []\<rparr>
      = (\<lparr>groupSelected = [group_a], activeGroupId = Some ''a'', savedGroupData = []\<rparr>,
         [Toast_error ''An error occurred while saving.''])
   \<and> fst (saveAttributeMeta (Some ''o1'') response_failure
        \<lparr>groupSelected = [group_a], activeGroupId = Some ''a'', savedGroupData = []\<rparr>)
      = \<lparr>groupSelected = [group_a], activeGroupId = Some ''a'', savedGroupData = []\<rparr>"
proof -
  have 1: "\<not> save_succeeds Rejected" "\<not> save_succeeds response_failure"
    by (simp_all add: save_succeeds_def)
  have 2: "\<not> falsy (Some ''o1'')" by (simp add: falsy_def)
  note t = failed_save_changes_nothing
    [of _ _ "\<lparr>groupSelected = [group_a], activeGroupId = Some ''a'', savedGroupData = []\<rparr>" "Some ''o1''"]
  from t [of Rejected] 1 2 hasChanges_a_empty
  have "\<exists>msg. saveAttributeMeta (Some ''o1'') Rejected
        \<lparr>groupSelected = [group_a], activeGroupId = Some ''a'', savedGroupData = []\<rparr>
      = (\<lparr>groupSelected = [group_a], activeGroupId = Some ''a'', savedGroupData = []\<rparr>, [Toast_error msg])"
    by simp
  then have 3: "saveAttributeMeta (Some ''o1'') Rejected
        \<lparr>groupSelected = [group_a], activeGroupId = Some ''a'', savedGroupData = []\<rparr>
      = (\<lparr>groupSelected = [group_a], activeGroupId = Some ''a'', savedGroupData = []\<rparr>,
         [Toast_error ''An error occurred while saving.''])"
    using hasChanges_a_empty 2
    by (auto simp: saveAttributeMeta_def saveAttributeMeta_request_def saveAttributeMeta_resume_def)
  from t [of response_failure] 1
  have 4: "fst (saveAttributeMeta (Some ''o1'') response_failure
        \<lparr>groupSelected = [group_a], activeGroupId = Some ''a'', savedGroupData = []\<rparr>)
      = \<lparr>groupSelected = [group_a], activeGroupId = Some ''a'', savedGroupData = []\<rparr>"
    by simp
  from 1 2 3 4 hasChanges_a_empty show ?thesis by simp
qed

subsection \<open>C3: deleting the active group\<close>

text \<open>
  Claim C3. After the active group is deleted, the first remaining group is active, or
  no group when none remains. The handler intends this (its comment reads
  ``Active first group if available''), but it takes the first group of the list of its
  own render, the list before the removal. When the deleted group is the first of
  two, the active id stays the id of the deleted group and the second effect does not
  repair it: no group is active although one remains.
\<close>

theorem delete_first_active_group_dangling:
  "handleDeleteGroup ''a'' True
      \<lparr>groupSelected = [group_a, group_b], activeGroupId = Some ''a'', savedGroupData = [group_a, group_b]\<rparr>
     = \<lparr>groupSelected = [group_b], activeGroupId = Some ''a'', savedGroupData = [group_a, group_b]\<rparr>
   \<and> effect2 \<lparr>groupSelected = [group_b], activeGroupId = Some ''a'', savedGroupData = [group_a, group_b]\<rparr>
     = \<lparr>groupSelected = [group_b], activeGroupId = Some ''a'', savedGroupData = [group_a, group_b]\<rparr>
   \<and> apply_operation [] (DeleteGroup ''a'' True)
      \<lparr>groupSelected = [group_a, group_b], activeGroupId = Some ''a'', savedGroupData = [group_a, group_b]\<rparr>
     = Some (\<lparr>groupSelected = [group_b], activeGroupId = Some ''a'', savedGroupData = [group_a, group_b]\<rparr>, [])
   \<and> activeGroup \<lparr>groupSelected = [group_b], activeGroupId = Some ''a'', savedGroupData = [group_a, group_b]\<rparr>
     = None"
  by (simp add: handleDeleteGroup_def effect2_def falsy_def apply_operation_def activeGroup_def Let_def)

subsection \<open>C4: a successful save\<close>

text \<open>
  Claim C4 says that after a successful save the baseline is the snapshot that was sent
  and that the document is therefore clean. The first half holds. The second does not
  hold as stated: the component stays editable while the request is in flight, and the
  baseline becomes the snapshot that was sent, not the snapshot of the moment the
  response arrives. In the trace below a group is added between the request and its
  response; after the successful save the document is dirty.
\<close>

theorem save_success_not_clean_counterexample:
  "saveAttributeMeta_request (Some ''o1'')
        \<lparr>groupSelected = [group_a], activeGroupId = Some ''a'', savedGroupData = []\<rparr>
      = (Some \<lparr>orderId = ''o1'', orderData = JSON_stringify (groups_json [group_a]), captured = [group_a]\<rparr>, [])
   \<and> apply_operation [] (CreateGroup ''b'' ''B'')
        \<lparr>groupSelected = [group_a], activeGroupId = Some ''a'', savedGroupData = []\<rparr>
      = Some (\<lparr>groupSelected = [group_a, group_b], activeGroupId = Some ''b'', savedGroupData = []\<rparr>, [])
   \<and> saveAttributeMeta_resume
        \<lparr>orderId = ''o1'', orderData = JSON_stringify (groups_json [group_a]), captured = [group_a]\<rparr>
        response_success
        \<lparr>groupSelected = [group_a, group_b], activeGroupId = Some ''b'', savedGroupData = []\<rparr>
      = (\<lparr>groupSelected = [group_a, group_b], activeGroupId = Some ''b'', savedGroupData = [group_a]\<rparr>,
         [Toast_success ''Order attributes updated successfully''])
   \<and> hasChanges [group_a, group_b] [group_a]"
proof -
  have "\<not> falsy (Some ''o1'')" by (simp add: falsy_def)
  then have "saveAttributeMeta_request (Some ''o1'')
        \<lparr>groupSelected = [group_a], activeGroupId = Some ''a'', savedGroupData = []\<rparr>
      = (Some \<lparr>orderId = ''o1'', orderData = JSON_stringify (groups_json [group_a]), captured = [group_a]\<rparr>, [])"
    using hasChanges_a_empty by (simp add: saveAttributeMeta_request_def)
  moreover have "apply_operation [] (CreateGroup ''b'' ''B'')
        \<lparr>groupSelected = [group_a], activeGroupId = Some ''a'', savedGroupData = []\<rparr>
      = Some (\<lparr>groupSelected = [group_a, group_b], activeGroupId = Some ''b'', savedGroupData = []\<rparr>, [])"
    by (simp add: apply_operation_def handleAddGroup_def trim_def is_space_def effect2_def falsy_def Let_def)
  moreover have "saveAttributeMeta_resume
        \<lparr>orderId = ''o1'', orderData = JSON_stringify (groups_json [group_a]), captured = [group_a]\<rparr>
        response_success
        \<lparr>groupSelected = [group_a, group_b], activeGroupId = Some ''b'', savedGroupData = []\<rparr>
      = (\<lparr>groupSelected = [group_a, group_b], activeGroupId = Some ''b'', savedGroupData = [group_a]\<rparr>,
         [Toast_success ''Order attributes updated successfully''])"
    by (simp add: saveAttributeMeta_resume_def)
  ultimately show ?thesis using hasChanges_ab_a by simp
qed

text \<open>
  Claim C4, amended. On a successful save the baseline becomes exactly the snapshot that
  the request carried, the one whose text was sent. Afterwards the document is clean
  exactly when the current snapshot still has the text that was sent; in particular it
  is clean when nothing was edited between the request and its response.
\<close>

theorem save_success_rebaselines:
  "(save_succeeds outcome \<longrightarrow>
      saveAttributeMeta_resume req outcome st =
        (st\<lparr>savedGroupData := captured req\<rparr>, [Toast_success ''Order attributes updated successfully'']))
   \<and> (saveAttributeMeta_request data_id st' = (Some req, toasts) \<longrightarrow>
        captured req = groupSelected st' \<and> orderData req = JSON_stringify (groups_json (groupSelected st')))
   \<and> (save_succeeds outcome \<and> orderData req = JSON_stringify (groups_json (captured req)) \<longrightarrow>
        hasChanges (groupSelected (fst (saveAttributeMeta_resume req outcome st)))
                   (savedGroupData (fst (saveAttributeMeta_resume req outcome st)))
          = (JSON_stringify (groups_json (groupSelected st)) \<noteq> orderData req))
   \<and> (hasChanges (groupSelected st) (savedGroupData st) \<and> \<not> falsy data_id \<and> save_succeeds outcome \<longrightarrow>
        fst (saveAttributeMeta data_id outcome st) = st\<lparr>savedGroupData := groupSelected st\<rparr>
        \<and> \<not> hasChanges (groupSelected (fst (saveAttributeMeta data_id outcome st)))
                         (savedGroupData (fst (saveAttributeMeta data_id outcome st))))"
proof (intro conjI impI)
  assume "save_succeeds outcome"
  then show "saveAttributeMeta_resume req outcome st =
        (st\<lparr>savedGroupData := captured req\<rparr>, [Toast_success ''Order attributes updated successfully''])"
    by (rule resume_success)
next
  assume "saveAttributeMeta_request data_id st' = (Some req, toasts)"
  then have "req = \<lparr>orderId = the data_id, orderData = JSON_stringify (groups_json (groupSelected st')),
            captured = groupSelected st'\<rparr>"
    by (auto simp: saveAttributeMeta_request_def split: if_splits)
  then show "captured req = groupSelected st'"
    and "orderData req = JSON_stringify (groups_json (groupSelected st'))" by simp_all
next
  assume "save_succeeds outcome \<and> orderData req = JSON_stringify (groups_json (captured req))"
  then show "hasChanges (groupSelected (fst (saveAttributeMeta_resume req outcome st)))
                   (savedGroupData (fst (saveAttributeMeta_resume req outcome st)))
          = (JSON_stringify (groups_json (groupSelected st)) \<noteq> orderData req)"
    by (simp add: resume_success hasChanges_def Let_def)
next
  assume a: "hasChanges (groupSelected st) (savedGroupData st) \<and> \<not> falsy data_id \<and> save_succeeds outcome"
  then show "fst (saveAttributeMeta data_id outcome st) = st\<lparr>savedGroupData := groupSelected st\<rparr>"
    by (simp add: saveAttributeMeta_def request_dirty resume_success)
  then show "\<not> hasChanges (groupSelected (fst (saveAttributeMeta data_id outcome st)))
                         (savedGroupData (fst (saveAttributeMeta data_id outcome st)))"
    by (simp add: hasChanges_def Let_def)
qed

theorem save_success_rebaselines_witness:
  "hasChanges [group_a] [] \<and> \<not> falsy (Some ''o1'') \<and> save_succeeds response_success
   \<and> saveAttributeMeta_request (Some ''o1'')
        \<lparr>groupSelected = [group_a], activeGroupId = Some ''a'', savedGroupData = []\<rparr>
      = (Some \<lparr>orderId = ''o1'', orderData = JSON_stringify (groups_json [group_a]), captured = [group_a]\<rparr>, [])
   \<and> fst (saveAttributeMeta (Some ''o1'') response_success
        \<lparr>groupSelected = [group_a], activeGroupId = Some ''a'', savedGroupData = []\<rparr>)
      = \<lparr>groupSelected = [group_a], activeGroupId = Some ''a'', savedGroupData = [group_a]\<rparr>
   \<and> \<not> hasChanges [group_a] [group_a]"
proof -
  have 1: "save_succeeds response_success" by (simp add: save_succeeds_def)
  have 2: "\<not> falsy (Some ''o1'')" by (simp add: falsy_def)
  have 3: "saveAttributeMeta_request (Some ''o1'')
        \<lparr>groupSelected = [group_a], activeGroupId = Some ''a'', savedGroupData = []\<rparr>
      = (Some \<lparr>orderId = ''o1'', orderData = JSON_stringify (groups_json [group_a]), captured = [group_a]\<rparr>, [])"
    using hasChanges_a_empty 2 by (simp add: saveAttributeMeta_request_def)
  note t = save_success_rebaselines
    [of response_success _ "\<lparr>groupSelected = [group_a], activeGroupId = Some ''a'', savedGroupData = []\<rparr>"
      "Some ''o1''", THEN conjunct2, THEN conjunct2, THEN conjunct2]
  have h: "hasChanges
      (groupSelected \<lparr>groupSelected = [group_a], activeGroupId = Some ''a'', savedGroupData = []\<rparr>)
      (savedGroupData \<lparr>groupSelected = [group_a], activeGroupId = Some ''a'', savedGroupData = []\<rparr>)"
    using hasChanges_a_empty by simp
  from t h 1 2
  have c: "fst (saveAttributeMeta (Some ''o1'') response_success
        \<lparr>groupSelected = [group_a], activeGroupId = Some ''a'', savedGroupData = []\<rparr>)
      = \<lparr>groupSelected = [group_a], activeGroupId = Some ''a'', savedGroupData = []\<rparr>
          \<lparr>savedGroupData := groupSelected
            \<lparr>groupSelected = [group_a], activeGroupId = Some ''a'', savedGroupData = []\<rparr>\<rparr>
    \<and> \<not> hasChanges (groupSelected (fst (saveAttributeMeta (Some ''o1'') response_success
        \<lparr>groupSelected = [group_a], activeGroupId = Some ''a'', savedGroupData = []\<rparr>)))
      (savedGroupData (fst (saveAttributeMeta (Some ''o1'') response_success
        \<lparr>groupSelected = [group_a], activeGroupId = Some ''a'', savedGroupData = []\<rparr>)))"
    by blast
  then have 4: "fst (saveAttributeMeta (Some ''o1'') response_success
        \<lparr>groupSelected = [group_a], activeGroupId = Some ''a'', savedGroupData = []\<rparr>)
      = \<lparr>groupSelected = [group_a], activeGroupId = Some ''a'', savedGroupData = [group_a]\<rparr>"
    by simp
  with c have 5: "\<not> hasChanges [group_a] [group_a]" by simp
  from 1 2 3 4 5 hasChanges_a_empty show ?thesis by simp
qed

subsection \<open>C5: parsing the persisted text\<close>



subsection \<open>C6: loading what was saved\<close>

text \<open>
  Claim C6. Parsing the text of a current-shape document gives the document back.
  This holds for every array of JavaScript values that is empty or whose first element
  has the key \<^verbatim>\<open>attributes\<close>, whatever else it holds; and for a typed document \<open>D\<close>
  the first effect applied to the text that a save sends sets both the current
  snapshot and the baseline to \<open>D\<close>, without a toast.
\<close>

theorem parse_serialize_roundtrip:
  "(jsval_ok (JArr vs) \<and> (vs = [] \<or> js_prop (hd vs) ''attributes'' \<noteq> None) \<longrightarrow>
      parseData (Some (JSON_stringify (JArr vs))) newId = (vs, []))
   \<and> (document_ok D \<longrightarrow>
      parseData (Some (JSON_stringify (groups_json D))) newId = (map group_json D, [])
      \<and> effect1 (Some (JSON_stringify (groups_json D))) newId st
          = Some (st\<lparr>groupSelected := D, savedGroupData := D\<rparr>, []))"
proof (intro conjI impI)
  assume "jsval_ok (JArr vs) \<and> (vs = [] \<or> js_prop (hd vs) ''attributes'' \<noteq> None)"
  then show "parseData (Some (JSON_stringify (JArr vs))) newId = (vs, [])"
    by (simp add: parseData_current_shape del: JSON_stringify.simps)
next
  assume d: "document_ok D"
  have "map group_json D = [] \<or> js_prop (hd (map group_json D)) ''attributes'' \<noteq> None"
    by (cases D) (simp_all add: group_json_has_attributes)
  moreover from d have "jsval_ok (JArr (map group_json D))"
    using jsval_ok_groups_json [of D] by (simp add: groups_json_def)
  ultimately show p: "parseData (Some (JSON_stringify (groups_json D))) newId = (map group_json D, [])"
    unfolding groups_json_def by (rule parseData_current_shape [rotated])
  show "effect1 (Some (JSON_stringify (groups_json D))) newId st
          = Some (st\<lparr>groupSelected := D, savedGroupData := D\<rparr>, [])"
    by (simp add: effect1_def p as_groups_json)
qed

theorem parse_serialize_roundtrip_witness:
  "jsval_ok (JArr [JObj [(''attributes'', JNull), (''extra'', JNum 1)], JNum 2])
   \<and> parseData (Some (JSON_stringify (JArr [JObj [(''attributes'', JNull), (''extra'', JNum 1)], JNum 2]))) ''g9''
       = ([JObj [(''attributes'', JNull), (''extra'', JNum 1)], JNum 2], [])
   \<and> document_ok [group_a, group_b]
   \<and> effect1 (Some (JSON_stringify (groups_json [group_a, group_b]))) ''g9'' initial_state
       = Some (\<lparr>groupSelected = [group_a, group_b], activeGroupId = None,
                savedGroupData = [group_a, group_b]\<rparr>, [])
   \<and> parseData (Some (JSON_stringify (groups_json []))) ''g9'' = ([], [])"
proof -
  have 1: "jsval_ok (JArr [JObj [(''attributes'', JNull), (''extra'', JNum 1)], JNum 2])" by simp
  have 2: "document_ok [group_a, group_b]" "document_ok []"
    by (simp_all add: document_ok_def all_fields_def group_fields_def)
  note t = parse_serialize_roundtrip [where newId = "''g9''"]
  from t [where vs = "[JObj [(''attributes'', JNull), (''extra'', JNum 1)], JNum 2]"] 1
  have 3: "parseData (Some (JSON_stringify (JArr [JObj [(''attributes'', JNull), (''extra'', JNum 1)], JNum 2]))) ''g9''
       = ([JObj [(''attributes'', JNull), (''extra'', JNum 1)], JNum 2], [])"
    by (simp del: JSON_stringify.simps)
  from t [where D = "[group_a, group_b]" and st = initial_state] 2
  have 4: "effect1 (Some (JSON_stringify (groups_json [group_a, group_b]))) ''g9'' initial_state
       = Some (\<lparr>groupSelected = [group_a, group_b], activeGroupId = None,
                savedGroupData = [group_a, group_b]\<rparr>, [])"
    by (simp add: initial_state_def)
  from t [where D = "[]"] 2
  have 5: "parseData (Some (JSON_stringify (groups_json []))) ''g9'' = ([], [])" by simp
  from 1 2 3 4 5 show ?thesis by (simp del: JSON_stringify.simps)
qed

subsection \<open>C7: duplicating a row\<close>



subsection \<open>C8: the ids of a checkbox value\<close>

text \<open>
  Claim C8. No array stored as the value of a field holds two entries with the same
  \<^verbatim>\<open>id\<close>: this is so in the empty document, every operation of the editor keeps it
  (together with the fact that the stored values are JavaScript values), and so every
  document that the editor builds from the empty one has it. Adding an entry whose
  \<^verbatim>\<open>id\<close> the array already holds changes nothing: the handler returns the state it
  was given and shows the error toast ``Already selected.''.
\<close>

theorem checkbox_ids_stay_unique:
  "checkbox_ids_unique (groupSelected initial_state) \<and> document_ok (groupSelected initial_state)
   \<and> (checkbox_ids_unique (groupSelected st) \<and> document_ok (groupSelected st) \<and> operation_ok ev \<longrightarrow>
        (\<exists>st' toasts. apply_operation ts ev st = Some (st', toasts)
           \<and> checkbox_ids_unique (groupSelected st') \<and> document_ok (groupSelected st')))
   \<and> ((\<forall>ev\<in>set evs. operation_ok ev) \<longrightarrow>
        (\<exists>st'. apply_operations ts evs initial_state = Some st'
           \<and> checkbox_ids_unique (groupSelected st')))
   \<and> (rows_of st attributeId = Some rows \<and> rowIndex < length rows \<and> fieldIndex < length (rows ! rowIndex)
        \<and> item_value (rows ! rowIndex ! fieldIndex) = Some (JArr vs)
        \<and> existingIndex item vs \<noteq> None \<longrightarrow>
        handleUpdateCheckboxValue attributeId rowIndex fieldIndex item True st
          = (st, [Toast_error ''Already selected.'']))"
proof (intro conjI impI)
  show i1: "checkbox_ids_unique (groupSelected initial_state)"
    by (simp add: initial_state_def checkbox_ids_unique_def all_fields_def)
  show i2: "document_ok (groupSelected initial_state)"
    by (simp add: initial_state_def document_ok_def all_fields_def)
  {
    assume "checkbox_ids_unique (groupSelected st) \<and> document_ok (groupSelected st) \<and> operation_ok ev"
    then obtain st1 toasts where h: "handle ts ev st = Some (st1, toasts)"
      and i: "checkbox_ids_unique (groupSelected st1)" "document_ok (groupSelected st1)"
      using handle_keeps_invariants [of st ev ts] by auto
    then have "apply_operation ts ev st = Some (effect2 st1, toasts)
        \<and> checkbox_ids_unique (groupSelected (effect2 st1)) \<and> document_ok (groupSelected (effect2 st1))"
      by (simp add: apply_operation_def groupSelected_effect2)
    then show "\<exists>st' toasts. apply_operation ts ev st = Some (st', toasts)
           \<and> checkbox_ids_unique (groupSelected st') \<and> document_ok (groupSelected st')"
      by blast
  }
  {
    assume "\<forall>ev\<in>set evs. operation_ok ev"
    then show "\<exists>st'. apply_operations ts evs initial_state = Some st'
           \<and> checkbox_ids_unique (groupSelected st')"
      using apply_operations_keep_invariants [OF i1 i2, of evs ts] by blast
  }
  {
    assume "rows_of st attributeId = Some rows \<and> rowIndex < length rows \<and> fieldIndex < length (rows ! rowIndex)
        \<and> item_value (rows ! rowIndex ! fieldIndex) = Some (JArr vs)
        \<and> existingIndex item vs \<noteq> None"
    then show "handleUpdateCheckboxValue attributeId rowIndex fieldIndex item True st
          = (st, [Toast_error ''Already selected.''])"
      by (intro checkbox_add_present) auto
  }
qed

theorem checkbox_ids_stay_unique_witness:
  "checkbox_ids_unique (ex_doc (Some (JArr [ex_item 5]))) \<and> document_ok (ex_doc (Some (JArr [ex_item 5])))
   \<and> operation_ok (SelectSearchResult ''7'' 0 0 ''checkbox'' (JObj [(''id'', JNum 5), (''key'', JStr ''red'')]))
   \<and> rows_of (ex_state (Some (JArr [ex_item 5]))) ''7'' = Some [[ex_field (Some (JArr [ex_item 5]))]]
   \<and> existingIndex (ex_item 5) [ex_item 5] = Some 0
   \<and> handleUpdateCheckboxValue ''7'' 0 0 (ex_item 5) True (ex_state (Some (JArr [ex_item 5])))
       = (ex_state (Some (JArr [ex_item 5])), [Toast_error ''Already selected.''])
   \<and> (\<exists>st' toasts.
         apply_operation [ex_template]
           (SelectSearchResult ''7'' 0 0 ''checkbox'' (JObj [(''id'', JNum 5), (''key'', JStr ''red'')]))
           (ex_state (Some (JArr [ex_item 5]))) = Some (st', toasts)
         \<and> checkbox_ids_unique (groupSelected st'))
   \<and> (\<exists>st'. apply_operations [ex_template]
          [CreateGroup ''a'' ''A'', SelectAttributeForGroup ex_template, AddRow ''7'',
           SelectSearchResult ''7'' 0 0 ''checkbox'' (JObj [(''id'', JNum 5), (''key'', JStr ''red'')]),
           SelectSearchResult ''7'' 0 0 ''checkbox'' (JObj [(''id'', JNum 5), (''key'', JStr ''red'')]),
           DuplicateRow ''7'' 0] initial_state = Some st'
         \<and> checkbox_ids_unique (groupSelected st'))"
proof -
  let ?s = "ex_state (Some (JArr [ex_item 5]))"
  let ?ev = "SelectSearchResult ''7'' 0 0 ''checkbox'' (JObj [(''id'', JNum 5), (''key'', JStr ''red'')])"
  have 1: "checkbox_ids_unique (groupSelected ?s)"
    by (simp add: checkbox_ids_unique_def all_fields_def group_fields_def attr_fields_def row_fields_def
        unique_ids_def)
  have 2: "document_ok (groupSelected ?s)"
    by (simp add: document_ok_def all_fields_def group_fields_def attr_fields_def row_fields_def item_ok_def)
  have 3: "operation_ok ?ev" by simp
  have 4: "rows_of ?s ''7'' = Some [[ex_field (Some (JArr [ex_item 5]))]]"
    by (simp add: rows_of_def falsy_def find_attribute_def)
  have 5: "existingIndex (ex_item 5) [ex_item 5] = Some 0" by (simp add: existingIndex_def)
  note t = checkbox_ids_stay_unique [where ts = "[ex_template]"]
  from t [where st = ?s and attributeId = "''7''" and rows = "[[ex_field (Some (JArr [ex_item 5]))]]"
      and rowIndex = 0 and fieldIndex = 0 and vs = "[ex_item 5]" and item = "ex_item 5"] 4 5
  have 6: "handleUpdateCheckboxValue ''7'' 0 0 (ex_item 5) True ?s = (?s, [Toast_error ''Already selected.''])"
    by simp
  from t [where st = ?s and ev = ?ev] 1 2 3
  have 7: "\<exists>st' toasts. apply_operation [ex_template] ?ev ?s = Some (st', toasts)
         \<and> checkbox_ids_unique (groupSelected st')"
    by blast
  from t [where evs = "[CreateGroup ''a'' ''A'', SelectAttributeForGroup ex_template, AddRow ''7'', ?ev, ?ev,
           DuplicateRow ''7'' 0]"] 3
  have 8: "\<exists>st'. apply_operations [ex_template]
          [CreateGroup ''a'' ''A'', SelectAttributeForGroup ex_template, AddRow ''7'', ?ev, ?ev,
           DuplicateRow ''7'' 0] initial_state = Some st'
         \<and> checkbox_ids_unique (groupSelected st')"
    by simp
  from 1 2 3 4 5 6 7 8 show ?thesis by simp
qed

subsection \<open>C9: attribute instances of a group\<close>

text \<open>
  Claim C9. \<^verbatim>\<open>handleSelectAttributeForGroup\<close> keeps the ids of the attribute instances
  of every group distinct. When the active group has no instance with the id of the
  template, the handler appends the instance \<^verbatim>\<open>{title, id, children: []}\<close> of the
  template to that group and shows nothing; when it has one, the state is unchanged
  and the only toast is an info toast. Every other operation keeps the ids distinct as
  well, so they are distinct in every document the editor builds from the empty one.
\<close>

theorem select_attribute_for_group:
  "(instance_ids_unique (groupSelected st) \<longrightarrow>
      instance_ids_unique (groupSelected (fst (handleSelectAttributeForGroup d st))))
   \<and> (\<not> falsy (activeGroupId st) \<and> activeGroup st = Some g
        \<and> tmpl_id d \<notin> attr_id ` set (attributes g) \<longrightarrow>
      handleSelectAttributeForGroup d st =
        (st\<lparr>groupSelected :=
             update_group (the (activeGroupId st))
               (\<lambda>g. g\<lparr>attributes := attributes g
                         @ [\<lparr>attr_id = tmpl_id d, attr_title = tmpl_title d, children = []\<rparr>]\<rparr>)
               (groupSelected st)\<rparr>, [])
      \<and> activeGroup (fst (handleSelectAttributeForGroup d st)) =
          Some (g\<lparr>attributes := attributes g
                     @ [\<lparr>attr_id = tmpl_id d, attr_title = tmpl_title d, children = []\<rparr>]\<rparr>))
   \<and> (\<not> falsy (activeGroupId st) \<and> activeGroup st = Some g
        \<and> tmpl_id d \<in> attr_id ` set (attributes g) \<longrightarrow>
      handleSelectAttributeForGroup d st =
        (st, [Toast_info (''Attribute '' @ [dq] @ tmpl_title d @ [dq] @ '' already added to this group.'')]))
   \<and> (instance_ids_unique (groupSelected st) \<and> apply_operation ts ev st = Some (st1, toasts) \<longrightarrow>
        instance_ids_unique (groupSelected st1))
   \<and> (apply_operations ts evs initial_state = Some st2 \<longrightarrow> instance_ids_unique (groupSelected st2))"
proof (intro conjI impI)
  assume "instance_ids_unique (groupSelected st)"
  then show "instance_ids_unique (groupSelected (fst (handleSelectAttributeForGroup d st)))"
    by (rule select_attribute_unique)
next
  assume "instance_ids_unique (groupSelected st) \<and> apply_operation ts ev st = Some (st1, toasts)"
  then show "instance_ids_unique (groupSelected st1)"
    using apply_operation_keeps_instance_ids [of st ts ev st1 toasts] by simp
next
  assume "apply_operations ts evs initial_state = Some st2"
  moreover have "instance_ids_unique (groupSelected initial_state)"
    by (simp add: initial_state_def instance_ids_unique_def)
  ultimately show "instance_ids_unique (groupSelected st2)"
    by (rule apply_operations_keep_instance_ids [rotated])
next
  assume a: "\<not> falsy (activeGroupId st) \<and> activeGroup st = Some g
        \<and> tmpl_id d \<notin> attr_id ` set (attributes g)"
  then have f: "find (\<lambda>g. group_id g = the (activeGroupId st)) (groupSelected st) = Some g"
    using activeGroup_find [of st] by simp
  with a show h: "handleSelectAttributeForGroup d st =
        (st\<lparr>groupSelected :=
             update_group (the (activeGroupId st))
               (\<lambda>g. g\<lparr>attributes := attributes g
                         @ [\<lparr>attr_id = tmpl_id d, attr_title = tmpl_title d, children = []\<rparr>]\<rparr>)
               (groupSelected st)\<rparr>, [])"
    by (auto simp: handleSelectAttributeForGroup_def Let_def image_iff)
  have "find (\<lambda>g. group_id g = the (activeGroupId st))
          (update_first (\<lambda>g. group_id g = the (activeGroupId st))
             (\<lambda>g. g\<lparr>attributes := attributes g
                         @ [\<lparr>attr_id = tmpl_id d, attr_title = tmpl_title d, children = []\<rparr>]\<rparr>)
             (groupSelected st))
        = map_option (\<lambda>g. g\<lparr>attributes := attributes g
                         @ [\<lparr>attr_id = tmpl_id d, attr_title = tmpl_title d, children = []\<rparr>]\<rparr>)
            (find (\<lambda>g. group_id g = the (activeGroupId st)) (groupSelected st))"
    by (rule find_update_first) simp
  with a f show "activeGroup (fst (handleSelectAttributeForGroup d st)) =
          Some (g\<lparr>attributes := attributes g
                     @ [\<lparr>attr_id = tmpl_id d, attr_title = tmpl_title d, children = []\<rparr>]\<rparr>)"
    unfolding h by (simp add: activeGroup_def update_group_def falsy_def split: option.splits)
next
  assume a: "\<not> falsy (activeGroupId st) \<and> activeGroup st = Some g
        \<and> tmpl_id d \<in> attr_id ` set (attributes g)"
  then have "find (\<lambda>g. group_id g = the (activeGroupId st)) (groupSelected st) = Some g"
    using activeGroup_find [of st] by simp
  with a show "handleSelectAttributeForGroup d st =
        (st, [Toast_info (''Attribute '' @ [dq] @ tmpl_title d @ [dq] @ '' already added to this group.'')])"
    by (auto simp: handleSelectAttributeForGroup_def Let_def)
qed

theorem select_attribute_for_group_witness:
  "instance_ids_unique [group_a, group_b]
   \<and> activeGroup \<lparr>groupSelected = [group_a, group_b], activeGroupId = Some ''a'', savedGroupData = []\<rparr>
       = Some group_a
   \<and> handleSelectAttributeForGroup ex_template
        \<lparr>groupSelected = [group_a, group_b], activeGroupId = Some ''a'', savedGroupData = []\<rparr>
       = (\<lparr>groupSelected = [group_a_with_size, group_b], activeGroupId = Some ''a'', savedGroupData = []\<rparr>, [])
   \<and> instance_ids_unique [group_a_with_size, group_b]
   \<and> handleSelectAttributeForGroup ex_template
        \<lparr>groupSelected = [group_a_with_size, group_b], activeGroupId = Some ''a'', savedGroupData = []\<rparr>
       = (\<lparr>groupSelected = [group_a_with_size, group_b], activeGroupId = Some ''a'', savedGroupData = []\<rparr>,
          [Toast_info (''Attribute '' @ [dq] @ ''Size'' @ [dq] @ '' already added to this group.'')])"
proof -
  let ?s = "\<lparr>groupSelected = [group_a, group_b], activeGroupId = Some ''a'', savedGroupData = []\<rparr>"
  let ?s' = "\<lparr>groupSelected = [group_a_with_size, group_b], activeGroupId = Some ''a'', savedGroupData = []\<rparr>"
  have 1: "instance_ids_unique (groupSelected ?s)" by (simp add: instance_ids_unique_def)
  have 2: "\<not> falsy (activeGroupId ?s)" "\<not> falsy (activeGroupId ?s')" by (simp_all add: falsy_def)
  have 3: "activeGroup ?s = Some group_a" "activeGroup ?s' = Some group_a_with_size"
    by (simp_all add: activeGroup_def)
  note t = select_attribute_for_group [where d = ex_template]
  from t [where st = ?s and g = group_a] 2 3
  have 4: "handleSelectAttributeForGroup ex_template ?s = (?s', [])"
    by (simp add: update_group_def)
  from t [where st = ?s] 1 have "instance_ids_unique (groupSelected (fst (handleSelectAttributeForGroup ex_template ?s)))"
    by blast
  with 4 have 5: "instance_ids_unique [group_a_with_size, group_b]" by simp
  from t [where st = ?s' and g = group_a_with_size] 2 3
  have 6: "handleSelectAttributeForGroup ex_template ?s'
       = (?s', [Toast_info (''Attribute '' @ [dq] @ ''Size'' @ [dq] @ '' already added to this group.'')])"
    by simp
  from 1 3 4 5 6 show ?thesis by simp
qed

subsection \<open>C10: a checkbox update on a value that is not an array\<close>

text \<open>
  Claim C10. When \<^verbatim>\<open>handleUpdateCheckboxValue\<close> finds its field and the value of the
  field is not an array (a string, a bound object, or no value), the value is first
  replaced by the empty array. Adding then leaves the one-element array of the new
  item, without a toast, and the former value is gone; removing leaves the empty
  array and shows the toast ``Item not found to remove.''.
\<close>

theorem checkbox_update_on_non_array:
  "\<not> falsy (activeGroupId st)
   \<and> find_field (the (activeGroupId st)) attributeId rowIndex fieldIndex (groupSelected st) = Some field
   \<and> (case item_value field of Some v \<Rightarrow> \<not> isArray v | None \<Rightarrow> True)
   \<longrightarrow>
     snd (handleUpdateCheckboxValue attributeId rowIndex fieldIndex item True st) = []
     \<and> find_field (the (activeGroupId st)) attributeId rowIndex fieldIndex
          (groupSelected (fst (handleUpdateCheckboxValue attributeId rowIndex fieldIndex item True st)))
        = Some (field\<lparr>item_value := Some (JArr [item])\<rparr>)
     \<and> snd (handleUpdateCheckboxValue attributeId rowIndex fieldIndex item False st)
        = [Toast_error ''Item not found to remove.'']
     \<and> find_field (the (activeGroupId st)) attributeId rowIndex fieldIndex
          (groupSelected (fst (handleUpdateCheckboxValue attributeId rowIndex fieldIndex item False st)))
        = Some (field\<lparr>item_value := Some (JArr [])\<rparr>)"
proof (intro impI)
  assume a: "\<not> falsy (activeGroupId st)
   \<and> find_field (the (activeGroupId st)) attributeId rowIndex fieldIndex (groupSelected st) = Some field
   \<and> (case item_value field of Some v \<Rightarrow> \<not> isArray v | None \<Rightarrow> True)"
  then have e: "checkbox_array field = []" by (simp add: checkbox_array_not_array)
  have v: "checkbox_value item True field = field\<lparr>item_value := Some (JArr [item])\<rparr>"
    "checkbox_value item False field = field\<lparr>item_value := Some (JArr [])\<rparr>"
    by (simp_all add: checkbox_value_def e existingIndex_def)
  have t: "checkbox_toast item True field = []"
    "checkbox_toast item False field = [Toast_error ''Item not found to remove.'']"
    by (simp_all add: checkbox_toast_def e existingIndex_def)
  from a v t show "snd (handleUpdateCheckboxValue attributeId rowIndex fieldIndex item True st) = []
     \<and> find_field (the (activeGroupId st)) attributeId rowIndex fieldIndex
          (groupSelected (fst (handleUpdateCheckboxValue attributeId rowIndex fieldIndex item True st)))
        = Some (field\<lparr>item_value := Some (JArr [item])\<rparr>)
     \<and> snd (handleUpdateCheckboxValue attributeId rowIndex fieldIndex item False st)
        = [Toast_error ''Item not found to remove.'']
     \<and> find_field (the (activeGroupId st)) attributeId rowIndex fieldIndex
          (groupSelected (fst (handleUpdateCheckboxValue attributeId rowIndex fieldIndex item False st)))
        = Some (field\<lparr>item_value := Some (JArr [])\<rparr>)"
    by (simp add: handleUpdateCheckboxValue_def find_field_update)
qed

theorem checkbox_update_on_non_array_witness:
  "\<not> falsy (activeGroupId (ex_state (Some (JStr ''XL''))))
   \<and> find_field ''a'' ''7'' 0 0 (ex_doc (Some (JStr ''XL''))) = Some (ex_field (Some (JStr ''XL'')))
   \<and> handleUpdateCheckboxValue ''7'' 0 0 (ex_item 5) True (ex_state (Some (JStr ''XL'')))
       = (ex_state (Some (JArr [ex_item 5])), [])
   \<and> handleUpdateCheckboxValue ''7'' 0 0 (ex_item 5) False (ex_state (Some (JStr ''XL'')))
       = (ex_state (Some (JArr [])), [Toast_error ''Item not found to remove.''])
   \<and> find_field ''a'' ''7'' 0 0 (ex_doc (Some (JArr [ex_item 5]))) = Some (ex_field (Some (JArr [ex_item 5])))"
proof -
  have 1: "\<not> falsy (activeGroupId (ex_state (Some (JStr ''XL''))))" by (simp add: falsy_def)
  have 2: "find_field ''a'' ''7'' 0 0 (ex_doc (Some (JStr ''XL''))) = Some (ex_field (Some (JStr ''XL'')))"
    by (simp add: find_field_def find_attribute_def has_field_def)
  have 3: "handleUpdateCheckboxValue ''7'' 0 0 (ex_item 5) True (ex_state (Some (JStr ''XL'')))
       = (ex_state (Some (JArr [ex_item 5])), [])"
    by (simp add: handleUpdateCheckboxValue_def falsy_def find_field_def find_attribute_def has_field_def
        update_attribute_def update_group_def update_field_def checkbox_value_def checkbox_toast_def
        checkbox_array_def existingIndex_def)
  have 4: "handleUpdateCheckboxValue ''7'' 0 0 (ex_item 5) False (ex_state (Some (JStr ''XL'')))
       = (ex_state (Some (JArr [])), [Toast_error ''Item not found to remove.''])"
    by (simp add: handleUpdateCheckboxValue_def falsy_def find_field_def find_attribute_def has_field_def
        update_attribute_def update_group_def update_field_def checkbox_value_def checkbox_toast_def
        checkbox_array_def existingIndex_def)
  from checkbox_update_on_non_array
    [of "ex_state (Some (JStr ''XL''))" "''7''" 0 0 "ex_field (Some (JStr ''XL''))" "ex_item 5"] 1 2 3
  have "find_field ''a'' ''7'' 0 0 (ex_doc (Some (JArr [ex_item 5]))) = Some (ex_field (Some (JArr [ex_item 5])))"
    by simp
  with 1 2 3 4 show ?thesis by simp
qed


end
